theory Spec2Isabelle
  imports Complex_Main
begin

section \<open>Errors raised by the manifold classes\<close>

text \<open>
  The three classes raise \<open>ValueError\<close> and \<open>AttributeError\<close>; the formatted message is kept
  as a constructor that carries the values the f-string interpolates.  Python itself raises
  \<open>IndexError\<close> when a sequence is indexed beyond its length, \<open>TypeError\<close> when a method is
  called with the wrong number of arguments, \<open>OverflowError\<close> when an int is too large for a
  float or an infinite float is converted to an int, and \<open>ValueError\<close> when an int of too many
  digits is converted to text or a NaN to an int; \<open>NumpyError\<close> stands for an exception that
  a routine of numpy raises on an array of the wrong number of axes.
\<close>

datatype message =
    Need_n_ge_p_ge_1 int int
  | Need_k_ge_1 int
  | At_least_one_manifold_required
  | Unsupport_manifold_of_type
  | Nested_product_manifolds_are_not_supported
  | Cannot_override_manifolds_attribute
  | Cant_set_attribute
  | Exceeds_the_limit_for_integer_string_conversion
  | Cannot_convert_float_NaN_to_integer

datatype error =
    ValueError message
  | AttributeError message
  | IndexError
  | TypeError
  | OverflowError
  | NumpyError

section \<open>Construction of Stiefel and FixedRankEmbedded\<close>

text \<open>
  \<open>str(i)\<close> of a Python int, used by the f-strings that build the display names.
\<close>

fun str_nat :: "nat \<Rightarrow> string" where
  "str_nat n =
     (if n < 10 then [char_of (48 + n)]
      else str_nat (n div 10) @ [char_of (48 + n mod 10)])"

definition str_int :: "int \<Rightarrow> string" where
  "str_int i = (if i < 0 then CHR ''-'' # str_nat (nat (- i)) else str_nat (nat i))"

text \<open>
  Python refuses to convert an int of more than 4300 decimal digits to text (the default of
  \<open>sys.int_max_str_digits\<close>; the sign does not count): the conversion raises a ValueError.
  Every f-string of the two constructors interpolates ints, the ones of the error messages
  too.
\<close>

definition max_str_digits :: nat where
  "max_str_digits = 4300"

definition too_long :: "int \<Rightarrow> bool" where
  "too_long i \<longleftrightarrow> max_str_digits < length (str_nat (nat \<bar>i\<bar>))"

definition format_int :: "int \<Rightarrow> error + string" where
  "format_int i =
     (if too_long i then Inl (ValueError Exceeds_the_limit_for_integer_string_conversion)
      else Inr (str_int i))"

text \<open>
  Floats.  The dimension of a Stiefel manifold is computed in 64-bit floats, since \<open>/\<close> is
  true division.  Every float of that computation is an integer (\<open>p * (p + 1)\<close> is even, and
  sums, differences, products and roundings of integers are integers), so a finite float is
  given here by its integer value.  \<open>round_nat\<close> is rounding to 53 significant bits, to the
  nearest and on a tie to the even significand; a result of magnitude \<open>2 ^ 1024\<close> or more is
  beyond the largest float.
\<close>

datatype float64 = Finite int | PosInf | NegInf | NaN

fun bit_length :: "nat \<Rightarrow> nat" where
  "bit_length m = (if m = 0 then 0 else Suc (bit_length (m div 2)))"

declare bit_length.simps [simp del]

definition round_nat :: "nat \<Rightarrow> nat" where
  "round_nat m =
     (if m < 2 ^ 53 then m
      else let e = bit_length m - 53; q = m div 2 ^ e; r = m mod 2 ^ e
           in if 2 ^ e < 2 * r \<or> (2 * r = 2 ^ e \<and> odd q) then (q + 1) * 2 ^ e else q * 2 ^ e)"

definition round_int :: "int \<Rightarrow> int" where
  "round_int i = (if i < 0 then - int (round_nat (nat (- i))) else int (round_nat (nat i)))"

definition overflows :: "int \<Rightarrow> bool" where
  "overflows i \<longleftrightarrow> 2 ^ 1024 \<le> \<bar>round_int i\<bar>"

text \<open>The conversion of an int to a float, which Python does before it mixes the two.\<close>

definition float_of_int :: "int \<Rightarrow> error + float64" where
  "float_of_int i = (if overflows i then Inl OverflowError else Inr (Finite (round_int i)))"

text \<open>
  \<open>a / 2\<close> on an int is the float nearest to the quotient, or an OverflowError when that is
  out of range.  The constructor divides \<open>p * (p + 1)\<close>, which is even, so the quotient is the
  integer \<open>a div 2\<close>.
\<close>

definition half_of_even :: "int \<Rightarrow> error + float64" where
  "half_of_even a = float_of_int (a div 2)"

text \<open>
  Float arithmetic does not raise: the result whose exact value is \<open>i\<close> is rounded, and is an
  infinity when it is out of range.
\<close>

definition ieee :: "int \<Rightarrow> float64" where
  "ieee i = (if overflows i then (if i < 0 then NegInf else PosInf) else Finite (round_int i))"

fun float_sub :: "float64 \<Rightarrow> float64 \<Rightarrow> float64" where
  "float_sub (Finite a) (Finite b) = ieee (a - b)"
| "float_sub (Finite a) PosInf = NegInf"
| "float_sub (Finite a) NegInf = PosInf"
| "float_sub PosInf (Finite b) = PosInf"
| "float_sub PosInf NegInf = PosInf"
| "float_sub NegInf (Finite b) = NegInf"
| "float_sub NegInf PosInf = NegInf"
| "float_sub x y = NaN"

fun float_sgn :: "float64 \<Rightarrow> int" where
  "float_sgn (Finite a) = sgn a"
| "float_sgn PosInf = 1"
| "float_sgn NegInf = - 1"
| "float_sgn NaN = 0"

fun float_mul :: "float64 \<Rightarrow> float64 \<Rightarrow> float64" where
  "float_mul (Finite a) (Finite b) = ieee (a * b)"
| "float_mul NaN y = NaN"
| "float_mul x NaN = NaN"
| "float_mul x y =
     (if float_sgn x * float_sgn y = 0 then NaN
      else if 0 < float_sgn x * float_sgn y then PosInf else NegInf)"

text \<open>\<open>int(x)\<close> of a float.\<close>

fun int_of_float :: "float64 \<Rightarrow> error + int" where
  "int_of_float (Finite a) = Inr a"
| "int_of_float NaN = Inl (ValueError Cannot_convert_float_NaN_to_integer)"
| "int_of_float x = Inl OverflowError"

text \<open>
  Modelled from the spec: the base class \<open>Manifold\<close> (and \<open>EuclideanEmbeddedSubmanifold\<close>)
  is not among the source files.  The spec says that a manifold object owns only its static
  parameters fixed at construction, that \<open>dim\<close> is fixed at construction and that
  \<open>point_layout\<close> is 1 for Stiefel, 3 for FixedRankEmbedded and a tuple of the factors'
  layouts for Product.  \<open>super().__init__(name, dimension, point_layout)\<close> therefore records
  these three values and does nothing else.
\<close>

datatype layout = Components int | Layouts "layout list"

record stiefel =
  st_n :: int
  st_p :: int
  st_k :: int
  st_name :: string
  st_dim :: int
  st_point_layout :: layout

text \<open>
  The name of a Stiefel manifold: the branches \<open>k == 1\<close> and \<open>k >= 2\<close> cover every integer
  that passed the check \<open>k < 1\<close>.  The f-string converts its ints from left to right.
\<close>

definition Stiefel_name :: "int \<Rightarrow> int \<Rightarrow> int \<Rightarrow> error + string" where
  "Stiefel_name n p k =
     (case format_int n of
        Inl e \<Rightarrow> Inl e
      | Inr sn \<Rightarrow>
         (case format_int p of
            Inl e \<Rightarrow> Inl e
          | Inr sp \<Rightarrow>
              if k = 1 then Inr (''Stiefel manifold St('' @ sn @ '','' @ sp @ '')'')
              else (case format_int k of
                      Inl e \<Rightarrow> Inl e
                    | Inr sk \<Rightarrow>
                        Inr (''Product Stiefel manifold St('' @ sn @ '','' @ sp @ '')^''
                             @ sk))))"

text \<open>
  \<open>int(k * (n * p - p * (p + 1) / 2))\<close>.  \<open>n * p\<close> and \<open>p * (p + 1)\<close> are products of ints; the
  division gives a float, so the subtraction converts \<open>n * p\<close> and the multiplication
  converts \<open>k\<close>.
\<close>

definition Stiefel_dimension :: "int \<Rightarrow> int \<Rightarrow> int \<Rightarrow> error + int" where
  "Stiefel_dimension n p k =
     (case half_of_even (p * (p + 1)) of
        Inl e \<Rightarrow> Inl e
      | Inr h \<Rightarrow>
         (case float_of_int (n * p) of
            Inl e \<Rightarrow> Inl e
          | Inr np \<Rightarrow>
             (case float_of_int k of
                Inl e \<Rightarrow> Inl e
              | Inr kf \<Rightarrow> int_of_float (float_mul kf (float_sub np h)))))"

text \<open>
  \<open>Stiefel.__init__(n, p, k=1)\<close>.  The two checks come in the order of the source; the
  message of each is an f-string, which is evaluated before the ValueError is raised.
\<close>

definition Stiefel_init :: "int \<Rightarrow> int \<Rightarrow> int \<Rightarrow> error + stiefel" where
  "Stiefel_init n p k =
     (if n < p \<or> p < 1 then
        (if too_long n \<or> too_long p
         then Inl (ValueError Exceeds_the_limit_for_integer_string_conversion)
         else Inl (ValueError (Need_n_ge_p_ge_1 n p)))
      else if k < 1 then
        (if too_long k
         then Inl (ValueError Exceeds_the_limit_for_integer_string_conversion)
         else Inl (ValueError (Need_k_ge_1 k)))
      else
        (case Stiefel_name n p k of
           Inl e \<Rightarrow> Inl e
         | Inr name \<Rightarrow>
            (case Stiefel_dimension n p k of
               Inl e \<Rightarrow> Inl e
             | Inr dimension \<Rightarrow>
                 Inr \<lparr> st_n = n, st_p = p, st_k = k, st_name = name, st_dim = dimension,
                       st_point_layout = Components 1 \<rparr>)))"

record fixed_rank =
  fr_m :: int
  fr_n :: int
  fr_k :: int
  fr_stiefel_m :: stiefel
  fr_stiefel_n :: stiefel
  fr_name :: string
  fr_dim :: int
  fr_point_layout :: layout

definition FixedRank_name :: "int \<Rightarrow> int \<Rightarrow> int \<Rightarrow> error + string" where
  "FixedRank_name m n k =
     (case format_int m of
        Inl e \<Rightarrow> Inl e
      | Inr sm \<Rightarrow>
         (case format_int n of
            Inl e \<Rightarrow> Inl e
          | Inr sn \<Rightarrow>
             (case format_int k of
                Inl e \<Rightarrow> Inl e
              | Inr sk \<Rightarrow>
                  Inr (''Embedded manifold of '' @ sm @ ''x'' @ sn @ '' matrices of rank ''
                       @ sk))))"

text \<open>
  \<open>FixedRankEmbedded.__init__(m, n, k)\<close> has no check of its own: it builds \<open>Stiefel(m, k)\<close> and
  then \<open>Stiefel(n, k)\<close>, and an exception of either constructor leaves through it.  Its own
  dimension \<open>(m + n - k) * k\<close> is arithmetic on ints.
\<close>

definition FixedRankEmbedded_init :: "int \<Rightarrow> int \<Rightarrow> int \<Rightarrow> error + fixed_rank" where
  "FixedRankEmbedded_init m n k =
     (case Stiefel_init m k 1 of
        Inl e \<Rightarrow> Inl e
      | Inr sm \<Rightarrow>
         (case Stiefel_init n k 1 of
            Inl e \<Rightarrow> Inl e
          | Inr sn \<Rightarrow>
             (case FixedRank_name m n k of
                Inl e \<Rightarrow> Inl e
              | Inr name \<Rightarrow>
                  Inr \<lparr> fr_m = m, fr_n = n, fr_k = k,
                        fr_stiefel_m = sm, fr_stiefel_n = sn,
                        fr_name = name,
                        fr_dim = (m + n - k) * k,
                        fr_point_layout = Components 3 \<rparr>)))"

section \<open>Construction of Product and its attribute guard\<close>

datatype manifold = MStiefel stiefel | MFixedRank fixed_rank

fun man_dim :: "manifold \<Rightarrow> int" where
  "man_dim (MStiefel s) = st_dim s"
| "man_dim (MFixedRank f) = fr_dim f"

fun man_point_layout :: "manifold \<Rightarrow> layout" where
  "man_point_layout (MStiefel s) = st_point_layout s"
| "man_point_layout (MFixedRank f) = fr_point_layout f"

text \<open>
  A Product instance is its attribute dictionary.  The values an attribute can hold are the
  tuple of factors, the numbers and names that the constructor stores, and any other object.
\<close>

datatype pyval =
    VManifolds "manifold list"
  | VInt int
  | VStr string
  | VLayout layout
  | VOther

type_synonym pyinstance = "string \<rightharpoonup> pyval"

text \<open>An argument of \<open>Product(...)\<close>: a manifold of another class, a Product, or something else.\<close>

datatype arg = AManifold manifold | AProduct pyinstance | ANotAManifold

text \<open>
  The names that \<open>hasattr\<close> finds on the class \<open>Product\<close> itself, as the class body defines
  them.  \<open>typicaldist\<close> is a property without a setter.
\<close>

definition Product_class_attrs :: "string set" where
  "Product_class_attrs =
     {''_TangentVector'', ''__init__'', ''__setattr__'', ''typicaldist'', ''inner'', ''norm'',
      ''dist'', ''proj'', ''egrad2rgrad'', ''ehess2rhess'', ''exp'', ''retr'', ''log'', ''rand'',
      ''randvec'', ''transp'', ''pairmean'', ''zerovec''}"

text \<open>
  The base classes are not among the source files, so the names they define are a parameter:
  \<open>base_attrs\<close> are the names that resolve on the base classes, \<open>base_readonly\<close> those among
  them that are properties without a setter.
\<close>

record base_class =
  base_attrs :: "string set"
  base_readonly :: "string set"

definition hasattr :: "base_class \<Rightarrow> pyinstance \<Rightarrow> string \<Rightarrow> bool" where
  "hasattr B self key \<longleftrightarrow>
     key \<in> dom self \<or> key \<in> Product_class_attrs \<or> key \<in> base_attrs B"

text \<open>
  \<open>object.__setattr__\<close>: a property without a setter refuses the assignment, every other name
  is bound in the instance dictionary.
\<close>

definition object_setattr :: "base_class \<Rightarrow> pyinstance \<Rightarrow> string \<Rightarrow> pyval \<Rightarrow> error + pyinstance" where
  "object_setattr B self key v =
     (if key = ''typicaldist'' \<or> key \<in> base_readonly B
      then Inl (AttributeError Cant_set_attribute)
      else Inr (self(key \<mapsto> v)))"

text \<open>\<open>Product.__setattr__(key, value)\<close>.\<close>

definition Product_setattr :: "base_class \<Rightarrow> pyinstance \<Rightarrow> string \<Rightarrow> pyval \<Rightarrow> error + pyinstance" where
  "Product_setattr B self key v =
     (if hasattr B self key \<and> key = ''manifolds''
      then Inl (AttributeError Cannot_override_manifolds_attribute)
      else object_setattr B self key v)"

text \<open>
  The loop of \<open>Product.__init__\<close> over its arguments: the first argument that is not a manifold,
  or that is a Product, raises; otherwise the arguments are the factors.
\<close>

fun check_manifolds :: "arg list \<Rightarrow> error + manifold list" where
  "check_manifolds [] = Inr []"
| "check_manifolds (ANotAManifold # as) = Inl (ValueError Unsupport_manifold_of_type)"
| "check_manifolds (AProduct P # as) =
     Inl (ValueError Nested_product_manifolds_are_not_supported)"
| "check_manifolds (AManifold m # as) =
     (case check_manifolds as of Inl e \<Rightarrow> Inl e | Inr ms \<Rightarrow> Inr (m # ms))"

text \<open>
  Modelled from the spec: \<open>Manifold.__init__\<close> is not among the source files.  It records the
  dimension and the point layout (the Product's display name is built from \<open>str\<close> of the factors,
  which the base class defines too, and is left out).  Each assignment to \<open>self\<close> goes through
  \<open>Product.__setattr__\<close>, since \<open>self\<close> is a Product.
\<close>

definition Manifold_init :: "base_class \<Rightarrow> pyinstance \<Rightarrow> int \<Rightarrow> layout \<Rightarrow> error + pyinstance" where
  "Manifold_init B self dimension point_layout =
     (case Product_setattr B self ''_dimension'' (VInt dimension) of
        Inl e \<Rightarrow> Inl e
      | Inr self' \<Rightarrow> Product_setattr B self' ''_point_layout'' (VLayout point_layout))"

text \<open>
  \<open>Product.__init__(*manifolds)\<close>.  The dimension is \<open>np.sum\<close> of the list of the factors'
  dimensions.  numpy adds in the element type it chooses for the list (64-bit integers when
  every dimension fits, and their sum wraps around), so the result is not the sum of
  unbounded integers in general: the routine is the parameter \<open>np_sum\<close>, and nothing is
  assumed of it.
\<close>

definition Product_init ::
  "base_class \<Rightarrow> (int list \<Rightarrow> int) \<Rightarrow> arg list \<Rightarrow> error + pyinstance" where
  "Product_init B np_sum manifolds =
     (if length manifolds = 0 then Inl (ValueError At_least_one_manifold_required)
      else case check_manifolds manifolds of
        Inl e \<Rightarrow> Inl e
      | Inr ms \<Rightarrow>
         (case Product_setattr B Map.empty ''_manifolds'' (VManifolds ms) of
            Inl e \<Rightarrow> Inl e
          | Inr self \<Rightarrow>
              Manifold_init B self (np_sum (map man_dim ms))
                (Layouts (map man_point_layout ms))))"

text \<open>The factor list of an instance: what every operation reads as \<open>self._manifolds\<close>.\<close>

definition factors :: "pyinstance \<Rightarrow> manifold list option" where
  "factors self =
     (case self ''_manifolds'' of Some (VManifolds ms) \<Rightarrow> Some ms | _ \<Rightarrow> None)"

section \<open>Arrays\<close>

text \<open>
  A numpy array of floats is a list of reals (one axis), a list of rows (two axes) or a list of
  matrices (three axes: the \<open>k\<close> blocks of a Stiefel point with \<open>k > 1\<close>).  The entries are
  real numbers: rounding is not modelled, so ``within tolerance'' reads as equality.  The
  functions below are total and agree with numpy on operands whose shapes conform; numpy
  raises or broadcasts on the others, which no manifold operation is specified for (the
  shapes of points and vectors are the caller's contract), and every result below states the
  shapes it is about.
\<close>

type_synonym vec = "real list"
type_synonym mat = "real list list"

definition mat :: "nat \<Rightarrow> nat \<Rightarrow> mat \<Rightarrow> bool" where
  "mat r c A \<longleftrightarrow> length A = r \<and> list_all (\<lambda>row. length row = c) A"

definition dot :: "vec \<Rightarrow> vec \<Rightarrow> real" where
  "dot u v = sum_list (map2 (*) u v)"

definition ncols :: "mat \<Rightarrow> nat" where
  "ncols A = (case A of [] \<Rightarrow> 0 | row # _ \<Rightarrow> length row)"

text \<open>\<open>A.T\<close>\<close>

definition mT :: "mat \<Rightarrow> mat" where
  "mT A = map (\<lambda>j. map (\<lambda>row. row ! j) A) [0..<ncols A]"

text \<open>\<open>A @ B\<close>\<close>

definition matmul :: "mat \<Rightarrow> mat \<Rightarrow> mat" where
  "matmul A B = map (\<lambda>row. map (dot row) (mT B)) A"

text \<open>\<open>A + B\<close>, \<open>A - B\<close>, \<open>-A\<close>, \<open>c * A\<close> and \<open>A / c\<close>, entry by entry.\<close>

definition madd :: "mat \<Rightarrow> mat \<Rightarrow> mat" where
  "madd A B = map2 (map2 (+)) A B"

definition msub :: "mat \<Rightarrow> mat \<Rightarrow> mat" where
  "msub A B = map2 (map2 (-)) A B"

definition mneg :: "mat \<Rightarrow> mat" where
  "mneg A = map (map uminus) A"

definition smul :: "real \<Rightarrow> mat \<Rightarrow> mat" where
  "smul c A = map (map ((*) c)) A"

definition sdiv :: "mat \<Rightarrow> real \<Rightarrow> mat" where
  "sdiv A c = map (map (\<lambda>x. x / c)) A"

text \<open>\<open>np.eye(n)\<close>, \<open>np.zeros((r, c))\<close>\<close>

definition eye :: "nat \<Rightarrow> mat" where
  "eye n = map (\<lambda>i. map (\<lambda>j. if i = j then 1 else 0) [0..<n]) [0..<n]"

definition zeros :: "nat \<Rightarrow> nat \<Rightarrow> mat" where
  "zeros r c = replicate r (replicate c 0)"

text \<open>\<open>np.diag\<close> of a one-axis array (the diagonal matrix) and of a matrix (its diagonal).\<close>

definition diag_of_vec :: "vec \<Rightarrow> mat" where
  "diag_of_vec v =
     map (\<lambda>i. map (\<lambda>j. if i = j then v ! i else 0) [0..<length v]) [0..<length v]"

definition diag_of_mat :: "mat \<Rightarrow> vec" where
  "diag_of_mat A = map (\<lambda>i. A ! i ! i) [0..<min (length A) (ncols A)]"

text \<open>\<open>np.hstack((A, B))\<close>, \<open>np.vstack((A, B))\<close> and the block matrix \<open>np.bmat([[A, B], [C, D]])\<close>.\<close>

definition hstack :: "mat \<Rightarrow> mat \<Rightarrow> mat" where
  "hstack A B = map2 (@) A B"

definition vstack :: "mat \<Rightarrow> mat \<Rightarrow> mat" where
  "vstack A B = A @ B"

definition bmat :: "mat \<Rightarrow> mat \<Rightarrow> mat \<Rightarrow> mat \<Rightarrow> mat" where
  "bmat A B C D = vstack (hstack A B) (hstack C D)"

text \<open>\<open>np.sign\<close>, and \<open>np.spacing(1)\<close>, the distance from 1.0 to the next float.\<close>

definition sign :: "real \<Rightarrow> real" where
  "sign x = (if x < 0 then - 1 else if x = 0 then 0 else 1)"

definition spacing_1 :: real where
  "spacing_1 = 1 / 2 ^ 52"

text \<open>
  \<open>np.tensordot(A, B)\<close> of two matrices (\<open>axes=2\<close>): the sum of the products of corresponding
  entries.
\<close>

definition tensordot2 :: "mat \<Rightarrow> mat \<Rightarrow> real" where
  "tensordot2 A B = sum_list (map2 dot A B)"

text \<open>The first \<open>k\<close> columns \<open>A[:, :k]\<close>.\<close>

definition first_cols :: "nat \<Rightarrow> mat \<Rightarrow> mat" where
  "first_cols k A = map (take k) A"

datatype ndarray = Arr1 vec | Arr2 mat | Arr3 "mat list"

text \<open>\<open>A.ndim\<close>, \<open>A + B\<close>, \<open>A - B\<close>, \<open>A / c\<close> and \<open>c * A\<close> on arrays of two or three axes.\<close>

fun ndim :: "ndarray \<Rightarrow> nat" where
  "ndim (Arr1 v) = 1"
| "ndim (Arr2 A) = 2"
| "ndim (Arr3 As) = 3"

fun nd_add :: "ndarray \<Rightarrow> ndarray \<Rightarrow> ndarray" where
  "nd_add (Arr2 A) (Arr2 B) = Arr2 (madd A B)"
| "nd_add (Arr3 As) (Arr3 Bs) = Arr3 (map2 madd As Bs)"

fun nd_sub :: "ndarray \<Rightarrow> ndarray \<Rightarrow> ndarray" where
  "nd_sub (Arr2 A) (Arr2 B) = Arr2 (msub A B)"
| "nd_sub (Arr3 As) (Arr3 Bs) = Arr3 (map2 msub As Bs)"

fun nd_sdiv :: "ndarray \<Rightarrow> real \<Rightarrow> ndarray" where
  "nd_sdiv (Arr2 A) c = Arr2 (sdiv A c)"
| "nd_sdiv (Arr3 As) c = Arr3 (map (\<lambda>A. sdiv A c) As)"

fun nd_smul :: "real \<Rightarrow> ndarray \<Rightarrow> ndarray" where
  "nd_smul c (Arr2 A) = Arr2 (smul c A)"
| "nd_smul c (Arr3 As) = Arr3 (map (smul c) As)"

text \<open>
  \<open>np.tensordot(G, H, axes=G.ndim)\<close> contracts every axis of \<open>G\<close> with the leading axes of
  \<open>H\<close>; on two arrays of the same shape it is the sum of the products of corresponding
  entries.
\<close>

fun tensordot_all :: "ndarray \<Rightarrow> ndarray \<Rightarrow> real" where
  "tensordot_all (Arr2 G) (Arr2 H) = tensordot2 G H"
| "tensordot_all (Arr3 Gs) (Arr3 Hs) = sum_list (map2 tensordot2 Gs Hs)"

text \<open>\<open>np.linalg.norm(G)\<close>: the root of the sum of the squares of all entries.\<close>

definition linalg_norm :: "ndarray \<Rightarrow> real" where
  "linalg_norm G = sqrt (tensordot_all G G)"

text \<open>
  Modelled from the spec: \<open>multiprod\<close>, \<open>multitransp\<close> and \<open>multisym\<close> of
  \<open>pymanopt.tools.multi\<close> are not among the source files.  The spec gives the projection as
  \<open>U - X sym(X\<^sup>T U)\<close> with \<open>sym(A) = (A + A\<^sup>T) / 2\<close>, ``applied per block when \<open>k > 1\<close>'':
  each of the three acts on a matrix, and block by block on an array of three axes.
\<close>

fun multiprod :: "ndarray \<Rightarrow> ndarray \<Rightarrow> ndarray" where
  "multiprod (Arr2 A) (Arr2 B) = Arr2 (matmul A B)"
| "multiprod (Arr3 As) (Arr3 Bs) = Arr3 (map2 matmul As Bs)"

fun multitransp :: "ndarray \<Rightarrow> ndarray" where
  "multitransp (Arr2 A) = Arr2 (mT A)"
| "multitransp (Arr3 As) = Arr3 (map mT As)"

definition sym_part :: "mat \<Rightarrow> mat" where
  "sym_part A = sdiv (madd A (mT A)) 2"

fun multisym :: "ndarray \<Rightarrow> ndarray" where
  "multisym (Arr2 A) = Arr2 (sym_part A)"
| "multisym (Arr3 As) = Arr3 (map sym_part As)"


section \<open>Library routines and random draws\<close>

text \<open>
  \<open>np.linalg.qr\<close>, \<open>np.linalg.svd\<close> and \<open>scipy.linalg.expm\<close> are routines of numpy and scipy,
  not code of the repository: each operation that calls one takes it as a parameter, and a
  result that needs a property of its output states that property.  A call of
  \<open>np.random.randn\<close> or \<open>np.random.rand\<close> is a parameter as well: the array that was drawn.
\<close>

type_synonym qr_fun = "mat \<Rightarrow> mat \<times> mat"
type_synonym svd_fun = "mat \<Rightarrow> mat \<times> vec \<times> mat"
type_synonym expm_fun = "mat \<Rightarrow> mat"

section \<open>Operations of Stiefel\<close>

definition Stiefel_typicaldist :: "stiefel \<Rightarrow> real" where
  "Stiefel_typicaldist self = sqrt (real_of_int (st_p self * st_k self))"

definition Stiefel_inner :: "ndarray \<Rightarrow> ndarray \<Rightarrow> ndarray \<Rightarrow> real" where
  "Stiefel_inner X G H = tensordot_all G H"

definition Stiefel_proj :: "ndarray \<Rightarrow> ndarray \<Rightarrow> ndarray" where
  "Stiefel_proj X U = nd_sub U (multiprod X (multisym (multiprod (multitransp X) U)))"

definition Stiefel_ehess2rhess :: "ndarray \<Rightarrow> ndarray \<Rightarrow> ndarray \<Rightarrow> ndarray \<Rightarrow> ndarray" where
  "Stiefel_ehess2rhess X egrad ehess H =
     (let XtG = multiprod (multitransp X) egrad;
          symXtG = multisym XtG;
          HsymXtG = multiprod H symXtG
      in Stiefel_proj X (nd_sub ehess HsymXtG))"

text \<open>\<open>np.diag(np.sign(np.sign(np.diag(r)) + 0.5))\<close>, the factor that undoes flipped signs.\<close>

definition sign_correction :: "mat \<Rightarrow> mat" where
  "sign_correction r = diag_of_vec (map (\<lambda>d. sign (sign d + 0.5)) (diag_of_mat r))"

text \<open>\<open>q, r = np.linalg.qr(A)\<close> followed by \<open>q @ np.diag(...)\<close>.\<close>

definition qr_unflipped :: "qr_fun \<Rightarrow> mat \<Rightarrow> mat" where
  "qr_unflipped qr A = (case qr A of (q, r) \<Rightarrow> matmul q (sign_correction r))"

text \<open>
  The loop \<open>for i in range(self._k): ... XNew[i] = ...\<close> of \<open>retr\<close>: it assigns into the
  array \<open>XNew\<close>, block after block; an index beyond the first axis raises.
\<close>

fun retr_loop :: "qr_fun \<Rightarrow> mat list \<Rightarrow> nat list \<Rightarrow> error + mat list" where
  "retr_loop qr XNew [] = Inr XNew"
| "retr_loop qr XNew (i # is) =
     (if i < length XNew
      then retr_loop qr (XNew[i := qr_unflipped qr (XNew ! i)]) is
      else Inl IndexError)"

definition Stiefel_retr :: "qr_fun \<Rightarrow> stiefel \<Rightarrow> ndarray \<Rightarrow> ndarray \<Rightarrow> error + ndarray" where
  "Stiefel_retr qr self X G =
     (if st_k self = 1
      then (case nd_add X G of Arr2 A \<Rightarrow> Inr (Arr2 (qr_unflipped qr A)))
      else (case nd_add X G of
              Arr3 XNew \<Rightarrow>
                (case retr_loop qr XNew [0..<nat (st_k self)] of
                   Inl e \<Rightarrow> Inl e
                 | Inr XNew' \<Rightarrow> Inr (Arr3 XNew'))))"

definition Stiefel_norm :: "ndarray \<Rightarrow> ndarray \<Rightarrow> real" where
  "Stiefel_norm X G = linalg_norm G"

text \<open>
  \<open>rand\<close>: \<open>randn i\<close> is the matrix that the \<open>i\<close>-th call of \<open>np.random.randn(n, p)\<close> returns.
  For \<open>k > 1\<close> the loop assigns the factor \<open>q\<close> of each draw into the new array of zeros.
\<close>

fun rand_loop :: "qr_fun \<Rightarrow> (nat \<Rightarrow> mat) \<Rightarrow> mat list \<Rightarrow> nat list \<Rightarrow> error + mat list" where
  "rand_loop qr randn X [] = Inr X"
| "rand_loop qr randn X (i # is) =
     (if i < length X
      then rand_loop qr randn (X[i := fst (qr (randn i))]) is
      else Inl IndexError)"

definition Stiefel_rand :: "qr_fun \<Rightarrow> (nat \<Rightarrow> mat) \<Rightarrow> stiefel \<Rightarrow> error + ndarray" where
  "Stiefel_rand qr randn self =
     (if st_k self = 1
      then (case qr (randn 0) of (q, r) \<Rightarrow> Inr (Arr2 q))
      else (case rand_loop qr randn
                   (replicate (nat (st_k self)) (zeros (nat (st_n self)) (nat (st_p self))))
                   [0..<nat (st_k self)] of
              Inl e \<Rightarrow> Inl e
            | Inr X \<Rightarrow> Inr (Arr3 X)))"

text \<open>\<open>randvec\<close>: \<open>U0\<close> is the array that \<open>np.random.randn(*np.shape(X))\<close> returns.\<close>

definition Stiefel_randvec :: "ndarray \<Rightarrow> ndarray \<Rightarrow> ndarray" where
  "Stiefel_randvec U0 X =
     (let U = Stiefel_proj X U0
      in nd_sdiv U (linalg_norm U))"

definition Stiefel_transp :: "ndarray \<Rightarrow> ndarray \<Rightarrow> ndarray \<Rightarrow> ndarray" where
  "Stiefel_transp x1 x2 d = Stiefel_proj x2 d"

text \<open>
  One block of \<open>exp\<close>.  Unary minus binds tighter than \<open>@\<close>, so \<open>-U.T @ U\<close> is
  \<open>(-U.T) @ U\<close>; \<open>np.bmat([X, U])\<close> puts the two matrices side by side.
\<close>

definition exp_block :: "expm_fun \<Rightarrow> nat \<Rightarrow> mat \<Rightarrow> mat \<Rightarrow> mat" where
  "exp_block expm p X U =
     (let W = expm (bmat (matmul (mT X) U) (matmul (mneg (mT U)) U)
                         (eye p) (matmul (mT X) U));
          Z = vstack (expm (matmul (mneg (mT X)) U)) (zeros p p)
      in matmul (matmul (hstack X U) W) Z)"

fun exp_loop :: "expm_fun \<Rightarrow> nat \<Rightarrow> mat list \<Rightarrow> mat list \<Rightarrow> mat list \<Rightarrow> nat list
                 \<Rightarrow> error + mat list" where
  "exp_loop expm p X U Y [] = Inr Y"
| "exp_loop expm p X U Y (i # is) =
     (if i < length X \<and> i < length U \<and> i < length Y
      then exp_loop expm p X U (Y[i := exp_block expm p (X ! i) (U ! i)]) is
      else Inl IndexError)"

definition Stiefel_exp :: "expm_fun \<Rightarrow> stiefel \<Rightarrow> ndarray \<Rightarrow> ndarray \<Rightarrow> error + ndarray" where
  "Stiefel_exp expm self X U =
     (if st_k self = 1
      then (case (X, U) of
              (Arr2 X2, Arr2 U2) \<Rightarrow> Inr (Arr2 (exp_block expm (nat (st_p self)) X2 U2)))
      else (case (X, U) of
              (Arr3 Xs, Arr3 Us) \<Rightarrow>
                (case exp_loop expm (nat (st_p self)) Xs Us
                        (map (\<lambda>A. zeros (length A) (ncols A)) Xs) [0..<nat (st_k self)] of
                   Inl e \<Rightarrow> Inl e
                 | Inr Y \<Rightarrow> Inr (Arr3 Y))))"

definition Stiefel_zerovec :: "stiefel \<Rightarrow> ndarray \<Rightarrow> ndarray" where
  "Stiefel_zerovec self X =
     (if st_k self = 1 then Arr2 (zeros (nat (st_n self)) (nat (st_p self)))
      else Arr3 (replicate (nat (st_k self)) (zeros (nat (st_n self)) (nat (st_p self)))))"


section \<open>Operations of FixedRankEmbedded\<close>

text \<open>
  A point is the tuple \<open>(u, s, vt)\<close>.  A tangent vector is a \<open>_FixedRankTangentVector\<close>, the
  named tuple with the fields \<open>Up\<close>, \<open>M\<close> and \<open>Vp\<close>.  The second argument of \<open>proj\<close> is an
  \<open>m \<times> n\<close> matrix or a list or tuple of three matrices; a \<open>_FixedRankTangentVector\<close> is a
  tuple, so \<open>isinstance(Z, (list, tuple))\<close> holds of it as well.
\<close>

type_synonym fr_point = "mat \<times> vec \<times> mat"

datatype fr_tangent = FixedRankTangentVector (Up_of: mat) (M_of: mat) (Vp_of: mat)

datatype ambient = Dense mat | Factors mat mat mat

definition as_tuple :: "fr_tangent \<Rightarrow> ambient" where
  "as_tuple Z = Factors (Up_of Z) (M_of Z) (Vp_of Z)"

definition FixedRank_typicaldist :: "fixed_rank \<Rightarrow> int" where
  "FixedRank_typicaldist self = fr_dim self"

definition FixedRank_inner :: "fr_point \<Rightarrow> fr_tangent \<Rightarrow> fr_tangent \<Rightarrow> real" where
  "FixedRank_inner X G H =
     tensordot2 (Up_of G) (Up_of H) + tensordot2 (M_of G) (M_of H)
       + tensordot2 (Vp_of G) (Vp_of H)"

text \<open>\<open>_apply_ambient\<close> and \<open>_apply_ambient_transpose\<close>; \<open>@\<close> associates to the left.\<close>

fun apply_ambient :: "ambient \<Rightarrow> mat \<Rightarrow> mat" where
  "apply_ambient (Factors Z0 Z1 Z2) W = matmul (matmul (matmul Z0 Z1) (mT Z2)) W"
| "apply_ambient (Dense Z) W = matmul Z W"

fun apply_ambient_transpose :: "ambient \<Rightarrow> mat \<Rightarrow> mat" where
  "apply_ambient_transpose (Factors Z0 Z1 Z2) W = matmul (matmul (matmul Z2 Z1) (mT Z0)) W"
| "apply_ambient_transpose (Dense Z) W = matmul (mT Z) W"

fun FixedRank_proj :: "fr_point \<Rightarrow> ambient \<Rightarrow> fr_tangent" where
  "FixedRank_proj (X0, X1, X2) Z =
     (let ZV = apply_ambient Z (mT X2);
          UtZV = matmul (mT X0) ZV;
          ZtU = apply_ambient_transpose Z X0;
          Up = msub ZV (matmul X0 UtZV);
          M = UtZV;
          Vp = msub ZtU (matmul (mT X2) (mT UtZV))
      in FixedRankTangentVector Up M Vp)"

text \<open>
  Broadcasting in \<open>egrad2rgrad\<close>: \<open>A / s\<close> and \<open>A * s\<close> act on column \<open>j\<close> with \<open>s[j]\<close>,
  \<open>s[:, np.newaxis] * A\<close> acts on row \<open>i\<close> with \<open>s[i]\<close>, \<open>A * B\<close> is the product entry by
  entry.  Division is the division of the reals, where \<open>x / 0 = 0\<close>; numpy returns an infinity
  or a NaN there.
\<close>

definition div_columns :: "mat \<Rightarrow> vec \<Rightarrow> mat" where
  "div_columns A s = map (\<lambda>row. map2 (/) row s) A"

definition mul_columns :: "mat \<Rightarrow> vec \<Rightarrow> mat" where
  "mul_columns A s = map (\<lambda>row. map2 (*) row s) A"

definition mul_rows :: "vec \<Rightarrow> mat \<Rightarrow> mat" where
  "mul_rows s A = map2 (\<lambda>c row. map ((*) c) row) s A"

definition hadamard :: "mat \<Rightarrow> mat \<Rightarrow> mat" where
  "hadamard A B = map2 (map2 (*)) A B"

text \<open>\<open>1 / (s[np.newaxis, :] ** 2 - s[:, np.newaxis] ** 2 + np.eye(k))\<close>\<close>

definition gap_factors :: "nat \<Rightarrow> vec \<Rightarrow> mat" where
  "gap_factors k s =
     map (\<lambda>i. map (\<lambda>j. 1 / ((s ! j)\<^sup>2 - (s ! i)\<^sup>2 + (if i = j then 1 else 0))) [0..<k]) [0..<k]"

fun FixedRank_egrad2rgrad :: "fixed_rank \<Rightarrow> fr_point \<Rightarrow> mat \<times> vec \<times> mat \<Rightarrow> fr_tangent" where
  "FixedRank_egrad2rgrad self (x0, x1, x2) (e0, e1, e2) =
     (let utdu = matmul (mT x0) e0;
          uutdu = matmul x0 utdu;
          Up = div_columns (msub e0 uutdu) x1;
          vtdv = matmul x2 (mT e2);
          vvtdv = matmul (mT x2) vtdv;
          Vp = div_columns (msub (mT e2) vvtdv) x1;
          f = gap_factors (nat (fr_k self)) x1;
          M = madd (madd (mul_columns (hadamard f (msub utdu (mT utdu))) x1)
                         (hadamard (mul_rows x1 f) (msub vtdv (mT vtdv))))
                   (diag_of_vec e1)
      in FixedRankTangentVector Up M Vp)"

text \<open>\<open>retr\<close>.  \<open>St[: self._k] + np.spacing(1)\<close> adds the spacing to each kept singular value.\<close>

fun FixedRank_retr :: "qr_fun \<Rightarrow> svd_fun \<Rightarrow> fixed_rank \<Rightarrow> fr_point \<Rightarrow> fr_tangent \<Rightarrow> fr_point" where
  "FixedRank_retr qr svd self (X0, X1, X2) Z =
     (case qr (Up_of Z) of (Qu, Ru) \<Rightarrow>
      case qr (Vp_of Z) of (Qv, Rv) \<Rightarrow>
      let k = nat (fr_k self);
          T = vstack (hstack (madd (diag_of_vec X1) (M_of Z)) (mT Rv))
                     (hstack Ru (zeros k k))
      in case svd T of (Ut, St, Vt0) \<Rightarrow>
      let Vt = mT Vt0;
          U = matmul (hstack X0 Qu) (first_cols k Ut);
          V = matmul (hstack (mT X2) Qv) (first_cols k Vt);
          S = map (\<lambda>s. s + spacing_1) (take k St)
      in (U, S, mT V))"

definition FixedRank_norm :: "fr_point \<Rightarrow> fr_tangent \<Rightarrow> real" where
  "FixedRank_norm X G = sqrt (FixedRank_inner X G G)"

text \<open>
  \<open>rand\<close>: \<open>randn_m\<close> and \<open>randn_n\<close> are the draws of the two internal Stiefel manifolds and
  \<open>r\<close> is the array that \<open>np.random.rand(self._k)\<close> returns; \<open>np.sort(r)[::-1]\<close> sorts it and
  reverses the result.
\<close>

definition FixedRank_rand ::
  "qr_fun \<Rightarrow> (nat \<Rightarrow> mat) \<Rightarrow> vec \<Rightarrow> (nat \<Rightarrow> mat) \<Rightarrow> fixed_rank \<Rightarrow> error + fr_point" where
  "FixedRank_rand qr randn_m r randn_n self =
     (case Stiefel_rand qr randn_m (fr_stiefel_m self) of
        Inl e \<Rightarrow> Inl e
      | Inr (Arr2 u) \<Rightarrow>
          (let s = rev (sort r)
           in case Stiefel_rand qr randn_n (fr_stiefel_n self) of
                Inl e \<Rightarrow> Inl e
              | Inr (Arr2 v) \<Rightarrow> Inr (u, s, mT v)))"

text \<open>\<open>_tangent\<close>\<close>

fun tangent :: "fr_point \<Rightarrow> fr_tangent \<Rightarrow> fr_tangent" where
  "tangent (X0, X1, X2) Z =
     (let Up = msub (Up_of Z) (matmul (matmul X0 (mT X0)) (Up_of Z));
          Vp = msub (Vp_of Z) (matmul (matmul (mT X2) X2) (Vp_of Z))
      in FixedRankTangentVector Up (M_of Z) Vp)"

text \<open>\<open>randvec\<close>: \<open>Up\<close>, \<open>Vp\<close> and \<open>M\<close> are the three arrays that \<open>np.random.randn\<close> returns.\<close>

definition FixedRank_randvec :: "mat \<Rightarrow> mat \<Rightarrow> mat \<Rightarrow> fr_point \<Rightarrow> fr_tangent" where
  "FixedRank_randvec Up Vp M X =
     (let Z = tangent X (FixedRankTangentVector Up M Vp);
          nrm = FixedRank_norm X Z
      in FixedRankTangentVector (sdiv (Up_of Z) nrm) (sdiv (M_of Z) nrm) (sdiv (Vp_of Z) nrm))"

fun FixedRank_tangent2ambient :: "fixed_rank \<Rightarrow> fr_point \<Rightarrow> fr_tangent \<Rightarrow> ambient" where
  "FixedRank_tangent2ambient self (X0, X1, X2) Z =
     (let U = hstack (madd (matmul X0 (M_of Z)) (Up_of Z)) X0;
          S = eye (2 * nat (fr_k self));
          V = hstack (mT X2) (Vp_of Z)
      in Factors U S V)"

definition FixedRank_transp :: "fixed_rank \<Rightarrow> fr_point \<Rightarrow> fr_point \<Rightarrow> fr_tangent \<Rightarrow> fr_tangent" where
  "FixedRank_transp self X1 X2 G = FixedRank_proj X2 (FixedRank_tangent2ambient self X1 G)"

definition FixedRank_zerovec :: "fixed_rank \<Rightarrow> fr_point \<Rightarrow> fr_tangent" where
  "FixedRank_zerovec self X =
     FixedRankTangentVector (zeros (nat (fr_m self)) (nat (fr_k self)))
                            (zeros (nat (fr_k self)) (nat (fr_k self)))
                            (zeros (nat (fr_n self)) (nat (fr_k self)))"

text \<open>The methods of \<open>_FixedRankTangentVector\<close>.\<close>

fun to_ambient :: "fr_tangent \<Rightarrow> fr_point \<Rightarrow> mat" where
  "to_ambient Z (x0, x1, x2) =
     (let Z1 = matmul (matmul x0 (M_of Z)) x2;
          Z2 = matmul (Up_of Z) x2;
          Z3 = matmul x0 (mT (Vp_of Z))
      in madd (madd Z1 Z2) Z3)"

definition tangent_add :: "fr_tangent \<Rightarrow> fr_tangent \<Rightarrow> fr_tangent" where
  "tangent_add s other =
     FixedRankTangentVector (madd (Up_of s) (Up_of other)) (madd (M_of s) (M_of other))
                            (madd (Vp_of s) (Vp_of other))"

definition tangent_sub :: "fr_tangent \<Rightarrow> fr_tangent \<Rightarrow> fr_tangent" where
  "tangent_sub s other =
     FixedRankTangentVector (msub (Up_of s) (Up_of other)) (msub (M_of s) (M_of other))
                            (msub (Vp_of s) (Vp_of other))"

definition tangent_mul :: "fr_tangent \<Rightarrow> real \<Rightarrow> fr_tangent" where
  "tangent_mul s other =
     FixedRankTangentVector (smul other (Up_of s)) (smul other (M_of s)) (smul other (Vp_of s))"

definition tangent_div :: "fr_tangent \<Rightarrow> real \<Rightarrow> fr_tangent" where
  "tangent_div s other =
     FixedRankTangentVector (sdiv (Up_of s) other) (sdiv (M_of s) other) (sdiv (Vp_of s) other)"

definition tangent_neg :: "fr_tangent \<Rightarrow> fr_tangent" where
  "tangent_neg s = FixedRankTangentVector (mneg (Up_of s)) (mneg (M_of s)) (mneg (Vp_of s))"


section \<open>Shapes and the invariants of points\<close>

text \<open>\<open>np.shape(A)\<close> of a rectangular array.\<close>

fun has_shape :: "nat list \<Rightarrow> ndarray \<Rightarrow> bool" where
  "has_shape [n] (Arr1 v) \<longleftrightarrow> length v = n"
| "has_shape [r, c] (Arr2 A) \<longleftrightarrow> mat r c A"
| "has_shape [k, r, c] (Arr3 As) \<longleftrightarrow> length As = k \<and> list_all (mat r c) As"
| "has_shape sh A \<longleftrightarrow> False"

text \<open>
  The class docstring of Stiefel: elements are \<open>n \<times> p\<close> matrices if \<open>k == 1\<close> and
  \<open>k \<times> n \<times> p\<close> arrays if \<open>k > 1\<close>.
\<close>

definition stiefel_shape :: "stiefel \<Rightarrow> nat list" where
  "stiefel_shape self =
     (if st_k self = 1 then [nat (st_n self), nat (st_p self)]
      else [nat (st_k self), nat (st_n self), nat (st_p self)])"

text \<open>
  The Frobenius inner product in the words of the claim: the products of corresponding
  entries, summed over all entries and over all blocks.
\<close>

fun frobenius :: "ndarray \<Rightarrow> ndarray \<Rightarrow> real" where
  "frobenius (Arr2 G) (Arr2 H) = (\<Sum>i<length G. \<Sum>j<ncols G. G ! i ! j * H ! i ! j)"
| "frobenius (Arr3 Gs) (Arr3 Hs) =
     (\<Sum>b<length Gs. \<Sum>i<length (Gs ! b). \<Sum>j<ncols (Gs ! b).
         Gs ! b ! i ! j * Hs ! b ! i ! j)"

section \<open>Operations of Product\<close>

text \<open>
  A point or a tangent vector of a Product is a sequence with one element per factor.  An
  element is an array (a point, a tangent vector or an ambient vector of a Stiefel factor,
  or a dense ambient matrix of a FixedRankEmbedded factor), the tuple \<open>(u, s, vt)\<close> of a
  FixedRankEmbedded point, a tuple of three matrices, or a \<open>_FixedRankTangentVector\<close>.
  Each method below dispatches to the method of the factor's class, as the call
  \<open>man.proj(...)\<close> does; \<open>ms\<close> is \<open>self._manifolds\<close>.
\<close>

datatype component =
    CArray ndarray
  | CPoint fr_point
  | CFactors mat mat mat
  | CTangent fr_tangent

fun man_inner :: "manifold \<Rightarrow> component \<Rightarrow> component \<Rightarrow> component \<Rightarrow> real" where
  "man_inner (MStiefel s) (CArray X) (CArray G) (CArray H) = Stiefel_inner X G H"
| "man_inner (MFixedRank f) (CPoint X) (CTangent G) (CTangent H) = FixedRank_inner X G H"

fun man_norm :: "manifold \<Rightarrow> component \<Rightarrow> component \<Rightarrow> real" where
  "man_norm (MStiefel s) (CArray X) (CArray G) = Stiefel_norm X G"
| "man_norm (MFixedRank f) (CPoint X) (CTangent G) = FixedRank_norm X G"

fun man_proj :: "manifold \<Rightarrow> component \<Rightarrow> component \<Rightarrow> component" where
  "man_proj (MStiefel s) (CArray X) (CArray U) = CArray (Stiefel_proj X U)"
| "man_proj (MFixedRank f) (CPoint X) (CArray (Arr2 Z)) = CTangent (FixedRank_proj X (Dense Z))"
| "man_proj (MFixedRank f) (CPoint X) (CFactors Z0 Z1 Z2) =
     CTangent (FixedRank_proj X (Factors Z0 Z1 Z2))"
| "man_proj (MFixedRank f) (CPoint X) (CTangent Z) = CTangent (FixedRank_proj X (as_tuple Z))"

text \<open>
  The random arrays that \<open>randvec\<close> of a factor draws: one array for Stiefel, the three
  arrays \<open>Up\<close>, \<open>Vp\<close>, \<open>M\<close> for FixedRankEmbedded.
\<close>

datatype draw = DrawStiefel ndarray | DrawFixedRank mat mat mat

fun man_randvec :: "manifold \<Rightarrow> draw \<Rightarrow> component \<Rightarrow> component" where
  "man_randvec (MStiefel s) (DrawStiefel U0) (CArray X) = CArray (Stiefel_randvec U0 X)"
| "man_randvec (MFixedRank f) (DrawFixedRank Up Vp M) (CPoint X) =
     CTangent (FixedRank_randvec Up Vp M X)"

fun man_zerovec :: "manifold \<Rightarrow> component \<Rightarrow> component" where
  "man_zerovec (MStiefel s) (CArray X) = CArray (Stiefel_zerovec s X)"
| "man_zerovec (MFixedRank f) (CPoint X) = CTangent (FixedRank_zerovec f X)"

fun man_transp :: "manifold \<Rightarrow> component \<Rightarrow> component \<Rightarrow> component \<Rightarrow> component" where
  "man_transp (MStiefel s) (CArray X1) (CArray X2) (CArray G) = CArray (Stiefel_transp X1 X2 G)"
| "man_transp (MFixedRank f) (CPoint X1) (CPoint X2) (CTangent G) =
     CTangent (FixedRank_transp f X1 X2 G)"

text \<open>
  \<open>scale * v\<close> with a float on the left: the product of an array with a number, or
  \<open>_FixedRankTangentVector.__rmul__\<close>, which is \<open>__mul__\<close>.
\<close>

fun scale_component :: "real \<Rightarrow> component \<Rightarrow> component" where
  "scale_component c (CArray A) = CArray (nd_smul c A)"
| "scale_component c (CTangent Z) = CTangent (tangent_mul Z c)"

text \<open>
  A comprehension \<open>[... X[k] ... for k, man in enumerate(self._manifolds)]\<close>: indexing a
  sequence that is shorter than the tuple of factors raises.
\<close>

definition Product_inner ::
  "manifold list \<Rightarrow> component list \<Rightarrow> component list \<Rightarrow> component list \<Rightarrow> error + real" where
  "Product_inner ms X G H =
     (if length X < length ms \<or> length G < length ms \<or> length H < length ms
      then Inl IndexError
      else Inr (sum_list (map (\<lambda>(k, man). man_inner man (X ! k) (G ! k) (H ! k))
                              (enumerate 0 ms))))"

definition Product_norm ::
  "manifold list \<Rightarrow> component list \<Rightarrow> component list \<Rightarrow> error + real" where
  "Product_norm ms X G =
     (case Product_inner ms X G G of Inl e \<Rightarrow> Inl e | Inr v \<Rightarrow> Inr (sqrt v))"

definition Product_proj ::
  "manifold list \<Rightarrow> component list \<Rightarrow> component list \<Rightarrow> error + component list" where
  "Product_proj ms X U =
     (if length X < length ms \<or> length U < length ms
      then Inl IndexError
      else Inr (map (\<lambda>(k, man). man_proj man (X ! k) (U ! k)) (enumerate 0 ms)))"

text \<open>
  \<open>randvec\<close>: \<open>len(self._manifolds) ** (-1/2)\<close> is the reciprocal of the square root of the
  number of factors; \<open>draws k\<close> is what the \<open>k\<close>-th factor's \<open>randvec\<close> draws.
\<close>

definition Product_randvec ::
  "(nat \<Rightarrow> draw) \<Rightarrow> manifold list \<Rightarrow> component list \<Rightarrow> error + component list" where
  "Product_randvec draws ms X =
     (let scale = 1 / sqrt (real (length ms))
      in if length X < length ms
         then Inl IndexError
         else Inr (map (\<lambda>(k, man). scale_component scale (man_randvec man (draws k) (X ! k)))
                       (enumerate 0 ms)))"

definition Product_transp ::
  "manifold list \<Rightarrow> component list \<Rightarrow> component list \<Rightarrow> component list
   \<Rightarrow> error + component list" where
  "Product_transp ms X1 X2 G =
     (if length X1 < length ms \<or> length X2 < length ms \<or> length G < length ms
      then Inl IndexError
      else Inr (map (\<lambda>(k, man). man_transp man (X1 ! k) (X2 ! k) (G ! k)) (enumerate 0 ms)))"

definition Product_zerovec :: "manifold list \<Rightarrow> component list \<Rightarrow> error + component list" where
  "Product_zerovec ms X =
     (if length X < length ms
      then Inl IndexError
      else Inr (map (\<lambda>(k, man). man_zerovec man (X ! k)) (enumerate 0 ms)))"

text \<open>
  What the arguments of \<open>randvec\<close> must be for the call to be within the contract: a Stiefel
  factor gets an array of two or three axes and draws one of as many axes, a
  FixedRankEmbedded factor gets a point tuple.
\<close>

fun randvec_args :: "manifold \<Rightarrow> component \<Rightarrow> draw \<Rightarrow> bool" where
  "randvec_args (MStiefel s) (CArray X) (DrawStiefel U0) \<longleftrightarrow> ndim X = ndim U0 \<and> 2 \<le> ndim X"
| "randvec_args (MFixedRank f) (CPoint X) (DrawFixedRank Up Vp M) \<longleftrightarrow> True"
| "randvec_args m x d \<longleftrightarrow> False"

section \<open>Valid instances, points and tangent vectors\<close>

text \<open>
  A Stiefel point: an array of the manifold's shape whose blocks have orthonormal columns,
  \<open>X\<^sup>T X = I\<close>.  An instance is valid when the constructor returns it.
\<close>

definition valid_stiefel :: "stiefel \<Rightarrow> bool" where
  "valid_stiefel self \<longleftrightarrow> Stiefel_init (st_n self) (st_p self) (st_k self) = Inr self"

definition orthonormal_columns :: "nat \<Rightarrow> mat \<Rightarrow> bool" where
  "orthonormal_columns p X \<longleftrightarrow> matmul (mT X) X = eye p"

fun orthonormal_blocks :: "nat \<Rightarrow> ndarray \<Rightarrow> bool" where
  "orthonormal_blocks p (Arr1 v) \<longleftrightarrow> False"
| "orthonormal_blocks p (Arr2 X) \<longleftrightarrow> orthonormal_columns p X"
| "orthonormal_blocks p (Arr3 Xs) \<longleftrightarrow> list_all (orthonormal_columns p) Xs"

definition stiefel_point :: "stiefel \<Rightarrow> ndarray \<Rightarrow> bool" where
  "stiefel_point self X \<longleftrightarrow>
     has_shape (stiefel_shape self) X \<and> orthonormal_blocks (nat (st_p self)) X"

text \<open>
  A FixedRankEmbedded point \<open>(U, S, V)\<close>: \<open>U\<close> is \<open>m \<times> k\<close> with orthonormal columns, \<open>S\<close> has \<open>k\<close>
  entries, none negative, in descending order, and \<open>V\<close> is \<open>k \<times> n\<close> with orthonormal rows.  A
  tangent vector \<open>(Up, M, Vp)\<close> at it: \<open>Up\<close> is \<open>m \<times> k\<close> with \<open>U\<^sup>T Up = 0\<close>, \<open>M\<close> is \<open>k \<times> k\<close>, and
  \<open>Vp\<close> is \<open>n \<times> k\<close> with \<open>V Vp = 0\<close>.
\<close>

definition valid_fixed_rank :: "fixed_rank \<Rightarrow> bool" where
  "valid_fixed_rank self \<longleftrightarrow>
     FixedRankEmbedded_init (fr_m self) (fr_n self) (fr_k self) = Inr self"

fun fixed_rank_point :: "fixed_rank \<Rightarrow> fr_point \<Rightarrow> bool" where
  "fixed_rank_point self (U, S, Vt) \<longleftrightarrow>
     mat (nat (fr_m self)) (nat (fr_k self)) U
     \<and> orthonormal_columns (nat (fr_k self)) U
     \<and> length S = nat (fr_k self) \<and> list_all (\<lambda>s. 0 \<le> s) S \<and> sorted_wrt (\<ge>) S
     \<and> mat (nat (fr_k self)) (nat (fr_n self)) Vt
     \<and> matmul Vt (mT Vt) = eye (nat (fr_k self))"

fun tangent_at :: "fixed_rank \<Rightarrow> fr_point \<Rightarrow> fr_tangent \<Rightarrow> bool" where
  "tangent_at self (U, S, Vt) Z \<longleftrightarrow>
     mat (nat (fr_m self)) (nat (fr_k self)) (Up_of Z)
     \<and> mat (nat (fr_k self)) (nat (fr_k self)) (M_of Z)
     \<and> mat (nat (fr_n self)) (nat (fr_k self)) (Vp_of Z)
     \<and> matmul (mT U) (Up_of Z) = zeros (nat (fr_k self)) (nat (fr_k self))
     \<and> matmul Vt (Vp_of Z) = zeros (nat (fr_k self)) (nat (fr_k self))"

text \<open>
  An ambient vector of FixedRankEmbedded within the contract of \<open>proj\<close>: a dense \<open>m \<times> n\<close>
  matrix, or three factors \<open>Uz\<close> (\<open>m \<times> r\<close>), \<open>Sz\<close> (\<open>r \<times> r\<close>, symmetric) and \<open>Vz\<close> (\<open>n \<times> r\<close>) of
  \<open>Uz Sz Vz\<^sup>T\<close>.
\<close>

fun ambient_vector :: "fixed_rank \<Rightarrow> ambient \<Rightarrow> bool" where
  "ambient_vector self (Dense Z) \<longleftrightarrow> mat (nat (fr_m self)) (nat (fr_n self)) Z"
| "ambient_vector self (Factors Z0 Z1 Z2) \<longleftrightarrow>
     0 < ncols Z0 \<and> mat (nat (fr_m self)) (ncols Z0) Z0 \<and> mat (ncols Z0) (ncols Z0) Z1
     \<and> mT Z1 = Z1 \<and> mat (nat (fr_n self)) (ncols Z0) Z2"

text \<open>The arguments of \<open>Product.proj\<close> at a factor that is a Stiefel manifold.\<close>

fun stiefel_proj_args :: "manifold \<Rightarrow> component \<Rightarrow> component \<Rightarrow> bool" where
  "stiefel_proj_args (MStiefel s) (CArray X) (CArray U) \<longleftrightarrow>
     valid_stiefel s \<and> stiefel_point s X \<and> has_shape (stiefel_shape s) U"
| "stiefel_proj_args m x u \<longleftrightarrow> False"

text \<open>
  The blocks of an array of the Stiefel manifold, and a tangent vector at a point: an array
  of the same shape with \<open>X\<^sup>T G + G\<^sup>T X = 0\<close> in every block.
\<close>

fun blocks :: "ndarray \<Rightarrow> mat list" where
  "blocks (Arr1 v) = []"
| "blocks (Arr2 A) = [A]"
| "blocks (Arr3 As) = As"

definition tangent_block :: "nat \<Rightarrow> mat \<Rightarrow> mat \<Rightarrow> bool" where
  "tangent_block p X G \<longleftrightarrow> madd (matmul (mT X) G) (matmul (mT G) X) = zeros p p"

definition stiefel_tangent :: "stiefel \<Rightarrow> ndarray \<Rightarrow> ndarray \<Rightarrow> bool" where
  "stiefel_tangent self X G \<longleftrightarrow>
     has_shape (stiefel_shape self) G
     \<and> list_all (\<lambda>(Xb, Gb). tangent_block (nat (st_p self)) Xb Gb) (zip (blocks X) (blocks G))"

text \<open>
  What the results below use of \<open>np.linalg.qr\<close> on an \<open>n \<times> p\<close> matrix with \<open>n \<ge> p\<close>: the factor
  \<open>q\<close> is \<open>n \<times> p\<close> with orthonormal columns and the factor \<open>r\<close> is \<open>p \<times> p\<close>.
\<close>

definition qr_contract :: "qr_fun \<Rightarrow> nat \<Rightarrow> nat \<Rightarrow> mat \<Rightarrow> bool" where
  "qr_contract qr n p A \<longleftrightarrow>
     (case qr A of (q, r) \<Rightarrow> mat n p q \<and> orthonormal_columns p q \<and> mat p p r)"

text \<open>
  What the results below use of \<open>scipy.linalg.expm\<close>: the exponential of a \<open>d \<times> d\<close> matrix is
  \<open>d \<times> d\<close>, and the exponential of a matrix \<open>B\<close> that is skew with respect to a bilinear form
  \<open>G\<close>, \<open>B\<^sup>T G + G B = 0\<close>, preserves the form, \<open>exp(B)\<^sup>T G exp(B) = G\<close> (the derivative of
  \<open>exp(tB)\<^sup>T G exp(tB)\<close> is \<open>exp(tB)\<^sup>T (B\<^sup>T G + G B) exp(tB)\<close>).  \<open>exp\<close> of a block calls
  \<open>expm\<close> twice; the forms in question are the Gram matrix of \<open>[X U]\<close> and the identity.
\<close>

definition expm_isometry :: "expm_fun \<Rightarrow> nat \<Rightarrow> mat \<Rightarrow> mat \<Rightarrow> bool" where
  "expm_isometry expm d B G \<longleftrightarrow>
     mat d d (expm B)
     \<and> (madd (matmul (mT B) G) (matmul G B) = zeros d d
          \<longrightarrow> matmul (matmul (mT (expm B)) G) (expm B) = G)"

definition expm_contract :: "expm_fun \<Rightarrow> nat \<Rightarrow> mat \<Rightarrow> mat \<Rightarrow> bool" where
  "expm_contract expm p X U \<longleftrightarrow>
     expm_isometry expm (p + p)
       (bmat (matmul (mT X) U) (matmul (mneg (mT U)) U) (eye p) (matmul (mT X) U))
       (matmul (mT (hstack X U)) (hstack X U))
     \<and> expm_isometry expm p (matmul (mneg (mT X)) U) (eye p)"

section \<open>Arrays in memory\<close>

text \<open>
  The functions above compute the value of the array that an operation returns.  To speak
  of the arrays that an operation is given and of those it creates, the arrays live in a
  memory: a list of cells, one per array, addressed by position.  A Python variable or a
  tuple field holds a reference.  Evaluating a numpy expression creates the array of its
  value in a new cell and changes no cell that exists (the operators \<open>+\<close>, \<open>-\<close>, \<open>/\<close>, \<open>*\<close>,
  \<open>@\<close>, \<open>.T\<close> and the functions of \<open>np\<close>, \<open>np.linalg\<close> and \<open>scipy.linalg\<close> that the three
  classes call leave their operands as they are; the temporaries of an expression cannot be
  reached once it is evaluated and get no cell here).  The only statements of the three
  classes that write into an array are the item assignments \<open>XNew[i] = ...\<close>, \<open>X[i], r = ...\<close>
  and \<open>Y[i] = ...\<close> in the loops of \<open>Stiefel.retr\<close>, \<open>rand\<close> and \<open>exp\<close>.
\<close>

type_synonym ref = nat
type_synonym heap = "ndarray list"

definition alloc :: "heap \<Rightarrow> ndarray \<Rightarrow> ref \<times> heap" where
  "alloc h A = (length h, h @ [A])"

text \<open>
  \<open>A[i] = M\<close> for the array \<open>A\<close> in cell \<open>a\<close>.  In the three loops \<open>M\<close> is computed from
  \<open>A[i]\<close>, \<open>X[i]\<close> or \<open>U[i]\<close> by a routine of \<open>np.linalg\<close> or by \<open>np.bmat\<close>, which raise when
  that is not a matrix, that is, when the array has fewer than three axes.
\<close>

definition setitem :: "heap \<Rightarrow> ref \<Rightarrow> nat \<Rightarrow> mat \<Rightarrow> error + heap" where
  "setitem h a i M =
     (case h ! a of
        Arr3 Bs \<Rightarrow> if i < length Bs then Inr (h[a := Arr3 (Bs[i := M])]) else Inl IndexError
      | _ \<Rightarrow> Inl NumpyError)"

text \<open>References to the elements of a point or tangent sequence, and what they refer to.\<close>

datatype cref =
    RArray ref
  | RPoint ref ref ref
  | RFactors ref ref ref
  | RTangent ref ref ref

fun the_mat :: "ndarray \<Rightarrow> mat" where
  "the_mat (Arr2 A) = A"

fun the_vec :: "ndarray \<Rightarrow> vec" where
  "the_vec (Arr1 v) = v"

fun deref :: "heap \<Rightarrow> cref \<Rightarrow> component" where
  "deref h (RArray a) = CArray (h ! a)"
| "deref h (RPoint u s vt) = CPoint (the_mat (h ! u), the_vec (h ! s), the_mat (h ! vt))"
| "deref h (RFactors a b c) = CFactors (the_mat (h ! a)) (the_mat (h ! b)) (the_mat (h ! c))"
| "deref h (RTangent a b c) =
     CTangent (FixedRankTangentVector (the_mat (h ! a)) (the_mat (h ! b)) (the_mat (h ! c)))"

text \<open>The arrays of a result are created one after the other.\<close>

fun store :: "heap \<Rightarrow> component \<Rightarrow> cref \<times> heap" where
  "store h (CArray A) = (case alloc h A of (a, h1) \<Rightarrow> (RArray a, h1))"
| "store h (CPoint (u, s, vt)) =
     (case alloc h (Arr2 u) of (a, h1) \<Rightarrow>
      case alloc h1 (Arr1 s) of (b, h2) \<Rightarrow>
      case alloc h2 (Arr2 vt) of (c, h3) \<Rightarrow> (RPoint a b c, h3))"
| "store h (CFactors Z0 Z1 Z2) =
     (case alloc h (Arr2 Z0) of (a, h1) \<Rightarrow>
      case alloc h1 (Arr2 Z1) of (b, h2) \<Rightarrow>
      case alloc h2 (Arr2 Z2) of (c, h3) \<Rightarrow> (RFactors a b c, h3))"
| "store h (CTangent Z) =
     (case alloc h (Arr2 (Up_of Z)) of (a, h1) \<Rightarrow>
      case alloc h1 (Arr2 (M_of Z)) of (b, h2) \<Rightarrow>
      case alloc h2 (Arr2 (Vp_of Z)) of (c, h3) \<Rightarrow> (RTangent a b c, h3))"

text \<open>What a call returns: a number, one element, or a sequence of elements.\<close>

datatype outcome = Scalar real | Element cref | Elements "cref list"

fun refs_of_cref :: "cref \<Rightarrow> ref list" where
  "refs_of_cref (RArray a) = [a]"
| "refs_of_cref (RPoint a b c) = [a, b, c]"
| "refs_of_cref (RFactors a b c) = [a, b, c]"
| "refs_of_cref (RTangent a b c) = [a, b, c]"

fun refs_of :: "outcome \<Rightarrow> ref list" where
  "refs_of (Scalar x) = []"
| "refs_of (Element r) = refs_of_cref r"
| "refs_of (Elements rs) = concat (map refs_of_cref rs)"

definition returning :: "heap \<Rightarrow> component \<Rightarrow> error + outcome \<times> heap" where
  "returning h c = (case store h c of (r, h') \<Rightarrow> Inr (Element r, h'))"

text \<open>
  The loops of \<open>Stiefel.retr\<close>, \<open>rand\<close> and \<open>exp\<close> for \<open>k > 1\<close>, statement by statement:
  \<open>xnew\<close>, \<open>x\<close> and \<open>y\<close> are the cells of the arrays that \<open>X + G\<close> and \<open>np.zeros\<close> created.
\<close>

fun retr_loop_st :: "qr_fun \<Rightarrow> heap \<Rightarrow> ref \<Rightarrow> nat list \<Rightarrow> error + heap" where
  "retr_loop_st qr h xnew [] = Inr h"
| "retr_loop_st qr h xnew (i # is) =
     (case setitem h xnew i (qr_unflipped qr (blocks (h ! xnew) ! i)) of
        Inl e \<Rightarrow> Inl e
      | Inr h' \<Rightarrow> retr_loop_st qr h' xnew is)"

definition Stiefel_retr_st :: "qr_fun \<Rightarrow> stiefel \<Rightarrow> heap \<Rightarrow> ref \<Rightarrow> ref \<Rightarrow> error + outcome \<times> heap" where
  "Stiefel_retr_st qr self h X G =
     (if st_k self = 1
      then returning h (CArray (Arr2 (qr_unflipped qr (the_mat (nd_add (h ! X) (h ! G))))))
      else (case alloc h (nd_add (h ! X) (h ! G)) of
              (xnew, h1) \<Rightarrow>
                (case retr_loop_st qr h1 xnew [0..<nat (st_k self)] of
                   Inl e \<Rightarrow> Inl e
                 | Inr h2 \<Rightarrow> Inr (Element (RArray xnew), h2))))"

fun rand_loop_st :: "qr_fun \<Rightarrow> (nat \<Rightarrow> mat) \<Rightarrow> heap \<Rightarrow> ref \<Rightarrow> nat list \<Rightarrow> error + heap" where
  "rand_loop_st qr randn h x [] = Inr h"
| "rand_loop_st qr randn h x (i # is) =
     (case setitem h x i (fst (qr (randn i))) of
        Inl e \<Rightarrow> Inl e
      | Inr h' \<Rightarrow> rand_loop_st qr randn h' x is)"

definition Stiefel_rand_st ::
  "qr_fun \<Rightarrow> (nat \<Rightarrow> mat) \<Rightarrow> stiefel \<Rightarrow> heap \<Rightarrow> error + outcome \<times> heap" where
  "Stiefel_rand_st qr randn self h =
     (if st_k self = 1
      then returning h (CArray (Arr2 (fst (qr (randn 0)))))
      else (case alloc h (Arr3 (replicate (nat (st_k self))
                                  (zeros (nat (st_n self)) (nat (st_p self))))) of
              (x, h1) \<Rightarrow>
                (case rand_loop_st qr randn h1 x [0..<nat (st_k self)] of
                   Inl e \<Rightarrow> Inl e
                 | Inr h2 \<Rightarrow> Inr (Element (RArray x), h2))))"

fun exp_loop_st :: "expm_fun \<Rightarrow> nat \<Rightarrow> heap \<Rightarrow> ref \<Rightarrow> ref \<Rightarrow> ref \<Rightarrow> nat list \<Rightarrow> error + heap" where
  "exp_loop_st expm p h X U y [] = Inr h"
| "exp_loop_st expm p h X U y (i # is) =
     (case (h ! X, h ! U) of
        (Arr3 Xs, Arr3 Us) \<Rightarrow>
          if i < length Xs \<and> i < length Us
          then (case setitem h y i (exp_block expm p (Xs ! i) (Us ! i)) of
                  Inl e \<Rightarrow> Inl e
                | Inr h' \<Rightarrow> exp_loop_st expm p h' X U y is)
          else Inl IndexError
      | _ \<Rightarrow> Inl NumpyError)"

definition Stiefel_exp_st ::
  "expm_fun \<Rightarrow> stiefel \<Rightarrow> heap \<Rightarrow> ref \<Rightarrow> ref \<Rightarrow> error + outcome \<times> heap" where
  "Stiefel_exp_st expm self h X U =
     (if st_k self = 1
      then returning h
             (CArray (Arr2 (exp_block expm (nat (st_p self)) (the_mat (h ! X)) (the_mat (h ! U)))))
      else (case alloc h (Arr3 (map (\<lambda>A. zeros (length A) (ncols A)) (blocks (h ! X)))) of
              (y, h1) \<Rightarrow>
                (case exp_loop_st expm (nat (st_p self)) h1 X U y [0..<nat (st_k self)] of
                   Inl e \<Rightarrow> Inl e
                 | Inr h2 \<Rightarrow> Inr (Element (RArray y), h2))))"

section \<open>Calls of the operations on arrays in memory\<close>

text \<open>
  A call of a method names the cells of its arguments.  The arrays that a call draws at
  random are part of the call.  Each method reads its arguments from the memory, computes
  the value as defined above and creates the arrays of its result; the three loops of
  Stiefel run statement by statement.
\<close>

record library =
  lib_qr :: qr_fun
  lib_svd :: svd_fun
  lib_expm :: expm_fun

datatype stiefel_call =
    SInner ref ref ref
  | SProj ref ref
  | SEhess2rhess ref ref ref ref
  | SRetr ref ref
  | SNorm ref ref
  | SRand "nat \<Rightarrow> mat"
  | SRandvec ndarray ref
  | STransp ref ref ref
  | SExp ref ref
  | SZerovec ref

fun Stiefel_call :: "library \<Rightarrow> stiefel \<Rightarrow> heap \<Rightarrow> stiefel_call \<Rightarrow> error + outcome \<times> heap" where
  "Stiefel_call L self h (SInner X G H) = Inr (Scalar (Stiefel_inner (h ! X) (h ! G) (h ! H)), h)"
| "Stiefel_call L self h (SProj X U) = returning h (CArray (Stiefel_proj (h ! X) (h ! U)))"
| "Stiefel_call L self h (SEhess2rhess X egrad ehess H) =
     returning h (CArray (Stiefel_ehess2rhess (h ! X) (h ! egrad) (h ! ehess) (h ! H)))"
| "Stiefel_call L self h (SRetr X G) = Stiefel_retr_st (lib_qr L) self h X G"
| "Stiefel_call L self h (SNorm X G) = Inr (Scalar (Stiefel_norm (h ! X) (h ! G)), h)"
| "Stiefel_call L self h (SRand randn) = Stiefel_rand_st (lib_qr L) randn self h"
| "Stiefel_call L self h (SRandvec U0 X) = returning h (CArray (Stiefel_randvec U0 (h ! X)))"
| "Stiefel_call L self h (STransp x1 x2 d) =
     returning h (CArray (Stiefel_transp (h ! x1) (h ! x2) (h ! d)))"
| "Stiefel_call L self h (SExp X U) = Stiefel_exp_st (lib_expm L) self h X U"
| "Stiefel_call L self h (SZerovec X) = returning h (CArray (Stiefel_zerovec self (h ! X)))"

text \<open>The cells of a tuple of three arrays, and the point or tangent vector they hold.\<close>

type_synonym tref = "ref \<times> ref \<times> ref"

fun point_in :: "heap \<Rightarrow> tref \<Rightarrow> fr_point" where
  "point_in h (u, s, vt) = (the_mat (h ! u), the_vec (h ! s), the_mat (h ! vt))"

fun tangent_in :: "heap \<Rightarrow> tref \<Rightarrow> fr_tangent" where
  "tangent_in h (a, b, c) =
     FixedRankTangentVector (the_mat (h ! a)) (the_mat (h ! b)) (the_mat (h ! c))"

text \<open>
  The second argument of \<open>FixedRankEmbedded.proj\<close>: a dense matrix, or any tuple of three
  arrays, a tangent vector included.
\<close>

fun ambient_in :: "heap \<Rightarrow> cref \<Rightarrow> ambient" where
  "ambient_in h (RArray z) = Dense (the_mat (h ! z))"
| "ambient_in h (RPoint a b c) = Factors (the_mat (h ! a)) (the_mat (h ! b)) (the_mat (h ! c))"
| "ambient_in h (RFactors a b c) = Factors (the_mat (h ! a)) (the_mat (h ! b)) (the_mat (h ! c))"
| "ambient_in h (RTangent a b c) = as_tuple (tangent_in h (a, b, c))"

fun factors_component :: "ambient \<Rightarrow> component" where
  "factors_component (Factors Z0 Z1 Z2) = CFactors Z0 Z1 Z2"
| "factors_component (Dense Z) = CArray (Arr2 Z)"

datatype fixed_rank_call =
    FInner tref tref tref
  | FProj tref cref
  | FEgrad2rgrad tref tref
  | FRetr tref tref
  | FNorm tref tref
  | FRand "nat \<Rightarrow> mat" vec "nat \<Rightarrow> mat"
  | FRandvec mat mat mat tref
  | FTangent2ambient tref tref
  | FTransp tref tref tref
  | FZerovec tref

fun FixedRank_call ::
  "library \<Rightarrow> fixed_rank \<Rightarrow> heap \<Rightarrow> fixed_rank_call \<Rightarrow> error + outcome \<times> heap" where
  "FixedRank_call L self h (FInner X G H) =
     Inr (Scalar (FixedRank_inner (point_in h X) (tangent_in h G) (tangent_in h H)), h)"
| "FixedRank_call L self h (FProj X Z) =
     returning h (CTangent (FixedRank_proj (point_in h X) (ambient_in h Z)))"
| "FixedRank_call L self h (FEgrad2rgrad x egrad) =
     returning h (CTangent (FixedRank_egrad2rgrad self (point_in h x) (point_in h egrad)))"
| "FixedRank_call L self h (FRetr X Z) =
     returning h (CPoint (FixedRank_retr (lib_qr L) (lib_svd L) self (point_in h X)
                            (tangent_in h Z)))"
| "FixedRank_call L self h (FNorm X G) =
     Inr (Scalar (FixedRank_norm (point_in h X) (tangent_in h G)), h)"
| "FixedRank_call L self h (FRand randn_m r randn_n) =
     (case FixedRank_rand (lib_qr L) randn_m r randn_n self of
        Inl e \<Rightarrow> Inl e
      | Inr P \<Rightarrow> returning h (CPoint P))"
| "FixedRank_call L self h (FRandvec Up Vp M X) =
     returning h (CTangent (FixedRank_randvec Up Vp M (point_in h X)))"
| "FixedRank_call L self h (FTangent2ambient X Z) =
     returning h (factors_component
                    (FixedRank_tangent2ambient self (point_in h X) (tangent_in h Z)))"
| "FixedRank_call L self h (FTransp X1 X2 G) =
     returning h (CTangent (FixedRank_transp self (point_in h X1) (point_in h X2)
                              (tangent_in h G)))"
| "FixedRank_call L self h (FZerovec X) =
     returning h (CTangent (FixedRank_zerovec self (point_in h X)))"

text \<open>
  The methods that a method of Product calls on its factors.  A factor method gets the
  \<open>k\<close>-th elements of the argument sequences; an element of another kind than the class
  works on makes numpy raise.  \<open>dist\<close>, \<open>log\<close> and \<open>pairmean\<close> of both classes, \<open>egrad2rgrad\<close>
  of Stiefel and \<open>exp\<close> and \<open>ehess2rhess\<close> of FixedRankEmbedded are not defined in the source
  files: the classes inherit them from the base classes, which are not among the source
  files, so what such a call does is a parameter, \<open>inherited\<close>.
\<close>

datatype rand_draw = RandStiefel "nat \<Rightarrow> mat" | RandFixedRank "nat \<Rightarrow> mat" vec "nat \<Rightarrow> mat"

datatype factor_method =
    MInner | MProj | MRetr | MRand rand_draw | MRandvec draw | MTransp | MZerovec
  | MExp | MEgrad2rgrad | MEhess2rhess | MDist | MLog | MPairmean

type_synonym inherited =
  "manifold \<Rightarrow> factor_method \<Rightarrow> heap \<Rightarrow> cref list \<Rightarrow> error + outcome \<times> heap"

datatype kind = KArray | KPoint | KFactors | KTangent

fun kind_of :: "cref \<Rightarrow> kind" where
  "kind_of (RArray a) = KArray"
| "kind_of (RPoint a b c) = KPoint"
| "kind_of (RFactors a b c) = KFactors"
| "kind_of (RTangent a b c) = KTangent"

fun ref_of :: "cref \<Rightarrow> ref" where
  "ref_of (RArray a) = a"
| "ref_of (RPoint a b c) = a"
| "ref_of (RFactors a b c) = a"
| "ref_of (RTangent a b c) = a"

fun tref_of :: "cref \<Rightarrow> tref" where
  "tref_of (RArray a) = (a, a, a)"
| "tref_of (RPoint a b c) = (a, b, c)"
| "tref_of (RFactors a b c) = (a, b, c)"
| "tref_of (RTangent a b c) = (a, b, c)"

definition stiefel_factor_call ::
  "inherited \<Rightarrow> library \<Rightarrow> stiefel \<Rightarrow> factor_method \<Rightarrow> heap \<Rightarrow> cref list
   \<Rightarrow> error + outcome \<times> heap" where
  "stiefel_factor_call I L s m h args =
     (case m of
        MInner \<Rightarrow>
          if map kind_of args = [KArray, KArray, KArray]
          then Stiefel_call L s h (SInner (ref_of (args ! 0)) (ref_of (args ! 1)) (ref_of (args ! 2)))
          else Inl NumpyError
      | MProj \<Rightarrow>
          if map kind_of args = [KArray, KArray]
          then Stiefel_call L s h (SProj (ref_of (args ! 0)) (ref_of (args ! 1)))
          else Inl NumpyError
      | MRetr \<Rightarrow>
          if map kind_of args = [KArray, KArray]
          then Stiefel_call L s h (SRetr (ref_of (args ! 0)) (ref_of (args ! 1)))
          else Inl NumpyError
      | MRand d \<Rightarrow>
          (case d of
             RandStiefel randn \<Rightarrow>
               if args = [] then Stiefel_call L s h (SRand randn) else Inl NumpyError
           | RandFixedRank randn_m r randn_n \<Rightarrow> Inl NumpyError)
      | MRandvec d \<Rightarrow>
          (case d of
             DrawStiefel U0 \<Rightarrow>
               if map kind_of args = [KArray]
               then Stiefel_call L s h (SRandvec U0 (ref_of (args ! 0)))
               else Inl NumpyError
           | DrawFixedRank Up Vp M \<Rightarrow> Inl NumpyError)
      | MTransp \<Rightarrow>
          if map kind_of args = [KArray, KArray, KArray]
          then Stiefel_call L s h
                 (STransp (ref_of (args ! 0)) (ref_of (args ! 1)) (ref_of (args ! 2)))
          else Inl NumpyError
      | MZerovec \<Rightarrow>
          if map kind_of args = [KArray]
          then Stiefel_call L s h (SZerovec (ref_of (args ! 0)))
          else Inl NumpyError
      | MExp \<Rightarrow>
          if map kind_of args = [KArray, KArray]
          then Stiefel_call L s h (SExp (ref_of (args ! 0)) (ref_of (args ! 1)))
          else Inl NumpyError
      | MEhess2rhess \<Rightarrow>
          if map kind_of args = [KArray, KArray, KArray, KArray]
          then Stiefel_call L s h
                 (SEhess2rhess (ref_of (args ! 0)) (ref_of (args ! 1)) (ref_of (args ! 2))
                    (ref_of (args ! 3)))
          else Inl NumpyError
      | MEgrad2rgrad \<Rightarrow> I (MStiefel s) m h args
      | MDist \<Rightarrow> I (MStiefel s) m h args
      | MLog \<Rightarrow> I (MStiefel s) m h args
      | MPairmean \<Rightarrow> I (MStiefel s) m h args)"

definition fixed_rank_factor_call ::
  "inherited \<Rightarrow> library \<Rightarrow> fixed_rank \<Rightarrow> factor_method \<Rightarrow> heap \<Rightarrow> cref list
   \<Rightarrow> error + outcome \<times> heap" where
  "fixed_rank_factor_call I L f m h args =
     (case m of
        MInner \<Rightarrow>
          if map kind_of args = [KPoint, KTangent, KTangent]
          then FixedRank_call L f h
                 (FInner (tref_of (args ! 0)) (tref_of (args ! 1)) (tref_of (args ! 2)))
          else Inl NumpyError
      | MProj \<Rightarrow>
          if length args = 2 \<and> kind_of (args ! 0) = KPoint
          then FixedRank_call L f h (FProj (tref_of (args ! 0)) (args ! 1))
          else Inl NumpyError
      | MRetr \<Rightarrow>
          if map kind_of args = [KPoint, KTangent]
          then FixedRank_call L f h (FRetr (tref_of (args ! 0)) (tref_of (args ! 1)))
          else Inl NumpyError
      | MRand d \<Rightarrow>
          (case d of
             RandStiefel randn \<Rightarrow> Inl NumpyError
           | RandFixedRank randn_m r randn_n \<Rightarrow>
               if args = [] then FixedRank_call L f h (FRand randn_m r randn_n)
               else Inl NumpyError)
      | MRandvec d \<Rightarrow>
          (case d of
             DrawStiefel U0 \<Rightarrow> Inl NumpyError
           | DrawFixedRank Up Vp M \<Rightarrow>
               if map kind_of args = [KPoint]
               then FixedRank_call L f h (FRandvec Up Vp M (tref_of (args ! 0)))
               else Inl NumpyError)
      | MTransp \<Rightarrow>
          if map kind_of args = [KPoint, KPoint, KTangent]
          then FixedRank_call L f h
                 (FTransp (tref_of (args ! 0)) (tref_of (args ! 1)) (tref_of (args ! 2)))
          else Inl NumpyError
      | MZerovec \<Rightarrow>
          if map kind_of args = [KPoint]
          then FixedRank_call L f h (FZerovec (tref_of (args ! 0)))
          else Inl NumpyError
      | MEgrad2rgrad \<Rightarrow>
          if map kind_of args = [KPoint, KPoint]
          then FixedRank_call L f h (FEgrad2rgrad (tref_of (args ! 0)) (tref_of (args ! 1)))
          else Inl NumpyError
      | MExp \<Rightarrow> I (MFixedRank f) m h args
      | MEhess2rhess \<Rightarrow> I (MFixedRank f) m h args
      | MDist \<Rightarrow> I (MFixedRank f) m h args
      | MLog \<Rightarrow> I (MFixedRank f) m h args
      | MPairmean \<Rightarrow> I (MFixedRank f) m h args)"

fun factor_call ::
  "inherited \<Rightarrow> library \<Rightarrow> manifold \<Rightarrow> factor_method \<Rightarrow> heap \<Rightarrow> cref list
   \<Rightarrow> error + outcome \<times> heap" where
  "factor_call I L (MStiefel s) m h args = stiefel_factor_call I L s m h args"
| "factor_call I L (MFixedRank f) m h args = fixed_rank_factor_call I L f m h args"

text \<open>
  A comprehension over \<open>enumerate(self._manifolds)\<close>: the factor methods are called one after
  the other, each on the memory that the calls before it left; \<open>post\<close> is what the
  comprehension does with the value of a factor (nothing, or the multiplication by \<open>scale\<close> in
  \<open>randvec\<close>).  Indexing an argument sequence beyond its length raises.
\<close>

fun factor_calls ::
  "inherited \<Rightarrow> library \<Rightarrow> (nat \<Rightarrow> factor_method)
   \<Rightarrow> (heap \<Rightarrow> outcome \<Rightarrow> error + outcome \<times> heap)
   \<Rightarrow> manifold list \<Rightarrow> nat \<Rightarrow> heap \<Rightarrow> cref list list \<Rightarrow> error + outcome list \<times> heap" where
  "factor_calls I L meth post [] k h args = Inr ([], h)"
| "factor_calls I L meth post (man # ms) k h args =
     (if list_ex (\<lambda>a. length a \<le> k) args then Inl IndexError
      else case factor_call I L man (meth k) h (map (\<lambda>a. a ! k) args) of
             Inl e \<Rightarrow> Inl e
           | Inr (v, h1) \<Rightarrow>
               (case post h1 v of
                  Inl e \<Rightarrow> Inl e
                | Inr (v', h2) \<Rightarrow>
                    (case factor_calls I L meth post ms (Suc k) h2 args of
                       Inl e \<Rightarrow> Inl e
                     | Inr (vs, h3) \<Rightarrow> Inr (v' # vs, h3))))"

definition unchanged :: "heap \<Rightarrow> outcome \<Rightarrow> error + outcome \<times> heap" where
  "unchanged h v = Inr (v, h)"

text \<open>
  \<open>scale * v\<close> for the value of a factor's \<open>randvec\<close>: a new array or tangent triple; a float
  times a plain list is a \<open>TypeError\<close>.
\<close>

fun scaled :: "real \<Rightarrow> heap \<Rightarrow> outcome \<Rightarrow> error + outcome \<times> heap" where
  "scaled c h (Scalar x) = Inr (Scalar (c * x), h)"
| "scaled c h (Element r) = returning h (scale_component c (deref h r))"
| "scaled c h (Elements rs) = Inl TypeError"

fun the_scalar :: "outcome \<Rightarrow> real" where
  "the_scalar (Scalar x) = x"
| "the_scalar (Element r) = 0"
| "the_scalar (Elements rs) = 0"

fun elements_of :: "outcome list \<Rightarrow> cref list" where
  "elements_of [] = []"
| "elements_of (Element r # vs) = r # elements_of vs"
| "elements_of (Scalar x # vs) = elements_of vs"
| "elements_of (Elements rs # vs) = rs @ elements_of vs"

datatype product_call =
    PInner "cref list" "cref list" "cref list"
  | PNorm "cref list" "cref list"
  | PDist "cref list" "cref list"
  | PProj "cref list" "cref list"
  | PEgrad2rgrad "cref list" "cref list"
  | PEhess2rhess "cref list" "cref list" "cref list" "cref list"
  | PExp "cref list" "cref list"
  | PRetr "cref list" "cref list"
  | PLog "cref list" "cref list"
  | PRand "nat \<Rightarrow> rand_draw"
  | PRandvec "nat \<Rightarrow> draw" "cref list"
  | PTransp "cref list" "cref list" "cref list"
  | PPairmean "cref list" "cref list"
  | PZerovec "cref list"

definition summed :: "error + outcome list \<times> heap \<Rightarrow> error + outcome \<times> heap" where
  "summed r = (case r of Inl e \<Rightarrow> Inl e
               | Inr (vs, h) \<Rightarrow> Inr (Scalar (sum_list (map the_scalar vs)), h))"

definition root_of_squares :: "error + outcome list \<times> heap \<Rightarrow> error + outcome \<times> heap" where
  "root_of_squares r =
     (case r of Inl e \<Rightarrow> Inl e
      | Inr (vs, h) \<Rightarrow> Inr (Scalar (sqrt (sum_list (map (\<lambda>v. (the_scalar v)\<^sup>2) vs))), h))"

definition collected :: "error + outcome list \<times> heap \<Rightarrow> error + outcome \<times> heap" where
  "collected r = (case r of Inl e \<Rightarrow> Inl e | Inr (vs, h) \<Rightarrow> Inr (Elements (elements_of vs), h))"

fun Product_call ::
  "inherited \<Rightarrow> library \<Rightarrow> manifold list \<Rightarrow> heap \<Rightarrow> product_call
   \<Rightarrow> error + outcome \<times> heap" where
  "Product_call I L ms h (PInner X G H) =
     summed (factor_calls I L (\<lambda>k. MInner) unchanged ms 0 h [X, G, H])"
| "Product_call I L ms h (PNorm X G) =
     (case summed (factor_calls I L (\<lambda>k. MInner) unchanged ms 0 h [X, G, G]) of
        Inl e \<Rightarrow> Inl e
      | Inr (v, h') \<Rightarrow> Inr (Scalar (sqrt (the_scalar v)), h'))"
| "Product_call I L ms h (PDist X Y) =
     root_of_squares (factor_calls I L (\<lambda>k. MDist) unchanged ms 0 h [X, Y])"
| "Product_call I L ms h (PProj X U) =
     collected (factor_calls I L (\<lambda>k. MProj) unchanged ms 0 h [X, U])"
| "Product_call I L ms h (PEgrad2rgrad X U) =
     collected (factor_calls I L (\<lambda>k. MEgrad2rgrad) unchanged ms 0 h [X, U])"
| "Product_call I L ms h (PEhess2rhess X egrad ehess H) =
     collected (factor_calls I L (\<lambda>k. MEhess2rhess) unchanged ms 0 h [X, egrad, ehess, H])"
| "Product_call I L ms h (PExp X U) =
     collected (factor_calls I L (\<lambda>k. MExp) unchanged ms 0 h [X, U])"
| "Product_call I L ms h (PRetr X U) =
     collected (factor_calls I L (\<lambda>k. MRetr) unchanged ms 0 h [X, U])"
| "Product_call I L ms h (PLog X U) =
     collected (factor_calls I L (\<lambda>k. MLog) unchanged ms 0 h [X, U])"
| "Product_call I L ms h (PRand draws) =
     collected (factor_calls I L (\<lambda>k. MRand (draws k)) unchanged ms 0 h [])"
| "Product_call I L ms h (PRandvec draws X) =
     collected (factor_calls I L (\<lambda>k. MRandvec (draws k))
                  (scaled (1 / sqrt (real (length ms)))) ms 0 h [X])"
| "Product_call I L ms h (PTransp X1 X2 G) =
     collected (factor_calls I L (\<lambda>k. MTransp) unchanged ms 0 h [X1, X2, G])"
| "Product_call I L ms h (PPairmean X Y) =
     collected (factor_calls I L (\<lambda>k. MPairmean) unchanged ms 0 h [X, Y])"
| "Product_call I L ms h (PZerovec X) =
     collected (factor_calls I L (\<lambda>k. MZerovec) unchanged ms 0 h [X])"

text \<open>
  The frame of a call that went from memory \<open>h\<close> to memory \<open>h'\<close> and returned \<open>v\<close>: every
  cell of \<open>h\<close> holds in \<open>h'\<close> the array it held, and every array of the result is in a cell
  that \<open>h\<close> did not have.
\<close>

definition frame :: "heap \<Rightarrow> heap \<Rightarrow> outcome \<Rightarrow> bool" where
  "frame h h' v \<longleftrightarrow>
     take (length h) h' = h \<and> list_all (\<lambda>r. length h \<le> r \<and> r < length h') (refs_of v)"

section \<open>Matrix algebra on lists of rows\<close>

lemma mat_nth_length: "mat r c A \<Longrightarrow> i < r \<Longrightarrow> length (A ! i) = c"
  by (auto simp: mat_def list_all_length)

lemma mat_length: "mat r c A \<Longrightarrow> length A = r"
  by (simp add: mat_def)

lemma ncols_mat: "mat r c A \<Longrightarrow> 0 < r \<Longrightarrow> ncols A = c"
  by (cases A) (auto simp: mat_def ncols_def)

lemma matI: "length A = r \<Longrightarrow> (\<And>i. i < r \<Longrightarrow> length (A ! i) = c) \<Longrightarrow> mat r c A"
  by (auto simp: mat_def list_all_length)

lemma mat_eqI:
  assumes "mat r c A" "mat r c B" "\<And>i j. i < r \<Longrightarrow> j < c \<Longrightarrow> A ! i ! j = B ! i ! j"
  shows "A = B"
proof (rule nth_equalityI)
  show "length A = length B" using assms by (simp add: mat_def)
next
  fix i assume "i < length A"
  then have i: "i < r" using assms by (simp add: mat_def)
  show "A ! i = B ! i"
    by (rule nth_equalityI) (use assms i in \<open>auto simp: mat_nth_length\<close>)
qed

lemma mT_mat: "mat r c A \<Longrightarrow> 0 < r \<Longrightarrow> mat c r (mT A)"
  by (auto simp: mT_def ncols_mat intro!: matI) (simp add: mat_def)

lemma mT_nth: "mat r c A \<Longrightarrow> 0 < r \<Longrightarrow> i < c \<Longrightarrow> j < r \<Longrightarrow> mT A ! i ! j = A ! j ! i"
  by (simp add: mT_def ncols_mat mat_length)

lemma mT_mT: "mat r c A \<Longrightarrow> 0 < r \<Longrightarrow> 0 < c \<Longrightarrow> mT (mT A) = A"
proof (rule mat_eqI[of r c])
  assume a: "mat r c A" "0 < r" "0 < c"
  then have t: "mat c r (mT A)" by (simp add: mT_mat)
  show "mat r c (mT (mT A))" using t a by (simp add: mT_mat)
  show "mat r c A" by fact
  fix i j assume "i < r" "j < c"
  then show "mT (mT A) ! i ! j = A ! i ! j"
    using a t by (simp add: mT_nth)
qed

lemma dot_sum: "length u = n \<Longrightarrow> length v = n \<Longrightarrow> dot u v = (\<Sum>k<n. u ! k * v ! k)"
  by (simp add: dot_def sum_list_sum_nth atLeast0LessThan)

lemma matmul_mat: "mat r n A \<Longrightarrow> mat n c B \<Longrightarrow> 0 < n \<Longrightarrow> mat r c (matmul A B)"
proof (rule matI)
  assume a: "mat r n A" "mat n c B" "0 < n"
  show "length (matmul A B) = r" using a by (simp add: matmul_def mat_length)
  fix i assume "i < r"
  then show "length (matmul A B ! i) = c"
    using a mT_mat[of n c B] by (simp add: matmul_def mat_length)
qed

lemma matmul_nth:
  "mat r n A \<Longrightarrow> mat n c B \<Longrightarrow> 0 < n \<Longrightarrow> i < r \<Longrightarrow> j < c \<Longrightarrow>
   matmul A B ! i ! j = (\<Sum>k<n. A ! i ! k * B ! k ! j)"
  using mT_mat[of n c B]
  by (simp add: matmul_def mat_length dot_sum[of _ n] mat_nth_length mT_nth)


lemma madd_mat: "mat r c A \<Longrightarrow> mat r c B \<Longrightarrow> mat r c (madd A B)"
  by (rule matI) (auto simp: madd_def mat_length mat_nth_length)

lemma madd_nth: "mat r c A \<Longrightarrow> mat r c B \<Longrightarrow> i < r \<Longrightarrow> j < c \<Longrightarrow>
   madd A B ! i ! j = A ! i ! j + B ! i ! j"
  by (simp add: madd_def mat_length mat_nth_length)

lemma msub_mat: "mat r c A \<Longrightarrow> mat r c B \<Longrightarrow> mat r c (msub A B)"
  by (rule matI) (auto simp: msub_def mat_length mat_nth_length)

lemma msub_nth: "mat r c A \<Longrightarrow> mat r c B \<Longrightarrow> i < r \<Longrightarrow> j < c \<Longrightarrow>
   msub A B ! i ! j = A ! i ! j - B ! i ! j"
  by (simp add: msub_def mat_length mat_nth_length)

lemma mneg_mat: "mat r c A \<Longrightarrow> mat r c (mneg A)"
  by (rule matI) (auto simp: mneg_def mat_length mat_nth_length)

lemma mneg_nth: "mat r c A \<Longrightarrow> i < r \<Longrightarrow> j < c \<Longrightarrow> mneg A ! i ! j = - (A ! i ! j)"
  by (simp add: mneg_def mat_length mat_nth_length)

lemma smul_mat: "mat r c A \<Longrightarrow> mat r c (smul a A)"
  by (rule matI) (auto simp: smul_def mat_length mat_nth_length)

lemma smul_nth: "mat r c A \<Longrightarrow> i < r \<Longrightarrow> j < c \<Longrightarrow> smul a A ! i ! j = a * A ! i ! j"
  by (simp add: smul_def mat_length mat_nth_length)

lemma sdiv_mat: "mat r c A \<Longrightarrow> mat r c (sdiv A a)"
  by (rule matI) (auto simp: sdiv_def mat_length mat_nth_length)

lemma sdiv_nth: "mat r c A \<Longrightarrow> i < r \<Longrightarrow> j < c \<Longrightarrow> sdiv A a ! i ! j = A ! i ! j / a"
  by (simp add: sdiv_def mat_length mat_nth_length)

lemma eye_mat: "mat n n (eye n)"
  by (rule matI) (auto simp: eye_def)

lemma eye_nth: "i < n \<Longrightarrow> j < n \<Longrightarrow> eye n ! i ! j = (if i = j then 1 else 0)"
  by (simp add: eye_def)

lemma zeros_mat: "mat r c (zeros r c)"
  by (rule matI) (auto simp: zeros_def)

lemma zeros_nth: "i < r \<Longrightarrow> j < c \<Longrightarrow> zeros r c ! i ! j = 0"
  by (simp add: zeros_def)

lemmas mat_intros = mT_mat matmul_mat madd_mat msub_mat mneg_mat smul_mat sdiv_mat eye_mat zeros_mat
lemmas mat_nths = mT_nth matmul_nth madd_nth msub_nth mneg_nth smul_nth sdiv_nth eye_nth zeros_nth

lemma matmul_assoc:
  assumes "mat r n A" "mat n p B" "mat p c C" "0 < n" "0 < p"
  shows "matmul (matmul A B) C = matmul A (matmul B C)"
proof (rule mat_eqI[of r c])
  show "mat r c (matmul (matmul A B) C)" using assms by (intro mat_intros)
  show "mat r c (matmul A (matmul B C))" using assms by (intro mat_intros)
  fix i j assume ij: "i < r" "j < c"
  have "matmul (matmul A B) C ! i ! j = (\<Sum>l<p. (\<Sum>k<n. A ! i ! k * B ! k ! l) * C ! l ! j)"
    using assms ij by (simp add: matmul_nth[of r p _ c] matmul_mat matmul_nth[of r n A p B])
  also have "\<dots> = (\<Sum>l<p. \<Sum>k<n. A ! i ! k * (B ! k ! l * C ! l ! j))"
    by (simp add: sum_distrib_right mult.assoc)
  also have "\<dots> = (\<Sum>k<n. \<Sum>l<p. A ! i ! k * (B ! k ! l * C ! l ! j))"
    by (rule sum.swap)
  also have "\<dots> = (\<Sum>k<n. A ! i ! k * (\<Sum>l<p. B ! k ! l * C ! l ! j))"
    by (simp add: sum_distrib_left)
  also have "\<dots> = matmul A (matmul B C) ! i ! j"
    using assms ij by (simp add: matmul_nth[of r n A c] matmul_mat matmul_nth[of n p B c C])
  finally show "matmul (matmul A B) C ! i ! j = matmul A (matmul B C) ! i ! j" .
qed

lemma matmul_madd_right:
  assumes "mat r n A" "mat n c B" "mat n c C" "0 < n"
  shows "matmul A (madd B C) = madd (matmul A B) (matmul A C)"
proof (rule mat_eqI[of r c])
  show "mat r c (matmul A (madd B C))" using assms by (intro mat_intros)
  show "mat r c (madd (matmul A B) (matmul A C))" using assms by (intro mat_intros)
  fix i j assume ij: "i < r" "j < c"
  show "matmul A (madd B C) ! i ! j = madd (matmul A B) (matmul A C) ! i ! j"
    using assms ij
    by (simp add: matmul_nth[of r n _ c] madd_mat matmul_mat madd_nth[of r c] madd_nth[of n c]
                  distrib_left sum.distrib)
qed

lemma matmul_madd_left:
  assumes "mat r n A" "mat r n B" "mat n c C" "0 < n"
  shows "matmul (madd A B) C = madd (matmul A C) (matmul B C)"
proof (rule mat_eqI[of r c])
  show "mat r c (matmul (madd A B) C)" using assms by (intro mat_intros)
  show "mat r c (madd (matmul A C) (matmul B C))" using assms by (intro mat_intros)
  fix i j assume ij: "i < r" "j < c"
  show "matmul (madd A B) C ! i ! j = madd (matmul A C) (matmul B C) ! i ! j"
    using assms ij
    by (simp add: matmul_nth[of r n _ c] madd_mat matmul_mat madd_nth[of r c] madd_nth[of r n]
                  distrib_right sum.distrib)
qed

lemma matmul_msub_right:
  assumes "mat r n A" "mat n c B" "mat n c C" "0 < n"
  shows "matmul A (msub B C) = msub (matmul A B) (matmul A C)"
proof (rule mat_eqI[of r c])
  show "mat r c (matmul A (msub B C))" using assms by (intro mat_intros)
  show "mat r c (msub (matmul A B) (matmul A C))" using assms by (intro mat_intros)
  fix i j assume ij: "i < r" "j < c"
  show "matmul A (msub B C) ! i ! j = msub (matmul A B) (matmul A C) ! i ! j"
    using assms ij
    by (simp add: matmul_nth[of r n _ c] msub_mat matmul_mat msub_nth[of r c] msub_nth[of n c]
                  right_diff_distrib sum_subtractf)
qed

lemma matmul_msub_left:
  assumes "mat r n A" "mat r n B" "mat n c C" "0 < n"
  shows "matmul (msub A B) C = msub (matmul A C) (matmul B C)"
proof (rule mat_eqI[of r c])
  show "mat r c (matmul (msub A B) C)" using assms by (intro mat_intros)
  show "mat r c (msub (matmul A C) (matmul B C))" using assms by (intro mat_intros)
  fix i j assume ij: "i < r" "j < c"
  show "matmul (msub A B) C ! i ! j = msub (matmul A C) (matmul B C) ! i ! j"
    using assms ij
    by (simp add: matmul_nth[of r n _ c] msub_mat matmul_mat msub_nth[of r c] msub_nth[of r n]
                  left_diff_distrib sum_subtractf)
qed

lemma mT_matmul:
  assumes "mat r n A" "mat n c B" "0 < n" "0 < r" "0 < c"
  shows "mT (matmul A B) = matmul (mT B) (mT A)"
proof (rule mat_eqI[of c r])
  show "mat c r (mT (matmul A B))" using assms by (intro mat_intros)
  show "mat c r (matmul (mT B) (mT A))" using assms by (intro mat_intros)
  fix i j assume ij: "i < c" "j < r"
  show "mT (matmul A B) ! i ! j = matmul (mT B) (mT A) ! i ! j"
    using assms ij
    by (simp add: mT_nth[of r c] matmul_mat matmul_nth[of r n A c B]
                  matmul_nth[of c n _ r] mT_mat mT_nth[of n c B] mT_nth[of r n A] mult.commute)
qed

lemma mT_madd:
  assumes "mat r c A" "mat r c B" "0 < r"
  shows "mT (madd A B) = madd (mT A) (mT B)"
proof (rule mat_eqI[of c r])
  show "mat c r (mT (madd A B))" using assms by (auto intro!: mat_intros)
  show "mat c r (madd (mT A) (mT B))" using assms by (auto intro!: mat_intros)
  fix i j assume "i < c" "j < r"
  then show "mT (madd A B) ! i ! j = madd (mT A) (mT B) ! i ! j"
    using assms by (simp add: mT_nth[of r c] madd_mat madd_nth[of r c] madd_nth[of c r] mT_mat)
qed

lemma mT_msub:
  assumes "mat r c A" "mat r c B" "0 < r"
  shows "mT (msub A B) = msub (mT A) (mT B)"
proof (rule mat_eqI[of c r])
  show "mat c r (mT (msub A B))" using assms by (auto intro!: mat_intros)
  show "mat c r (msub (mT A) (mT B))" using assms by (auto intro!: mat_intros)
  fix i j assume "i < c" "j < r"
  then show "mT (msub A B) ! i ! j = msub (mT A) (mT B) ! i ! j"
    using assms by (simp add: mT_nth[of r c] msub_mat msub_nth[of r c] msub_nth[of c r] mT_mat)
qed

lemma mT_eye: "0 < n \<Longrightarrow> mT (eye n) = eye n"
  by (rule mat_eqI[of n n]) (auto simp: mT_mat eye_mat mT_nth[of n n] eye_nth)

lemma matmul_eye_left:
  assumes "mat n c A" "0 < n"
  shows "matmul (eye n) A = A"
proof (rule mat_eqI[of n c])
  show "mat n c (matmul (eye n) A)" using assms by (auto intro!: mat_intros)
  show "mat n c A" by fact
  fix i j assume ij: "i < n" "j < c"
  have "matmul (eye n) A ! i ! j = (\<Sum>k<n. (if i = k then 1 else 0) * A ! k ! j)"
    using assms ij by (simp add: matmul_nth[of n n _ c] eye_mat eye_nth)
  also have "\<dots> = (\<Sum>k<n. if k = i then A ! k ! j else 0)"
    by (rule sum.cong) auto
  also have "\<dots> = A ! i ! j"
    using ij by simp
  finally show "matmul (eye n) A ! i ! j = A ! i ! j" .
qed

lemma matmul_eye_right:
  assumes "mat r n A" "0 < n"
  shows "matmul A (eye n) = A"
proof (rule mat_eqI[of r n])
  show "mat r n (matmul A (eye n))" using assms by (auto intro!: mat_intros)
  show "mat r n A" by fact
  fix i j assume ij: "i < r" "j < n"
  have "matmul A (eye n) ! i ! j = (\<Sum>k<n. A ! i ! k * (if k = j then 1 else 0))"
    using assms ij by (simp add: matmul_nth[of r n _ n] eye_mat eye_nth)
  also have "\<dots> = (\<Sum>k<n. if k = j then A ! i ! k else 0)"
    by (rule sum.cong) auto
  also have "\<dots> = A ! i ! j"
    using ij by simp
  finally show "matmul A (eye n) ! i ! j = A ! i ! j" .
qed

lemma matmul_zeros_right:
  assumes "mat r n A" "0 < n"
  shows "matmul A (zeros n c) = zeros r c"
proof (rule mat_eqI[of r c])
  show "mat r c (matmul A (zeros n c))" using assms by (auto intro!: mat_intros)
  show "mat r c (zeros r c)" by (rule zeros_mat)
  fix i j assume ij: "i < r" "j < c"
  then show "matmul A (zeros n c) ! i ! j = zeros r c ! i ! j"
    using assms by (simp add: matmul_nth[of r n _ c] zeros_mat zeros_nth)
qed

lemma matmul_zeros_left:
  assumes "mat n c A" "0 < n"
  shows "matmul (zeros r n) A = zeros r c"
proof (rule mat_eqI[of r c])
  show "mat r c (matmul (zeros r n) A)" using assms by (auto intro!: mat_intros)
  show "mat r c (zeros r c)" by (rule zeros_mat)
  fix i j assume ij: "i < r" "j < c"
  then show "matmul (zeros r n) A ! i ! j = zeros r c ! i ! j"
    using assms by (simp add: matmul_nth[of r n _ c] zeros_mat zeros_nth)
qed

lemma msub_zeros: "mat r c A \<Longrightarrow> msub A (zeros r c) = A"
  by (rule mat_eqI[of r c]) (auto simp: msub_mat zeros_mat msub_nth[of r c] zeros_nth)

lemma msub_self: "mat r c A \<Longrightarrow> msub A A = zeros r c"
  by (rule mat_eqI[of r c]) (auto simp: msub_mat zeros_mat msub_nth[of r c] zeros_nth)

lemma madd_zeros_right: "mat r c A \<Longrightarrow> madd A (zeros r c) = A"
  by (rule mat_eqI[of r c]) (auto simp: madd_mat zeros_mat madd_nth[of r c] zeros_nth)

lemma madd_zeros_left: "mat r c A \<Longrightarrow> madd (zeros r c) A = A"
  by (rule mat_eqI[of r c]) (auto simp: madd_mat zeros_mat madd_nth[of r c] zeros_nth)

lemma madd_msub_cancel: "mat r c A \<Longrightarrow> mat r c B \<Longrightarrow> msub (madd A B) A = B"
  by (rule mat_eqI[of r c]) (auto simp: madd_mat msub_mat madd_nth[of r c] msub_nth[of r c])

lemma mT_zeros: "0 < r \<Longrightarrow> mT (zeros r c) = zeros c r"
  by (rule mat_eqI[of c r]) (auto simp: mT_mat[of r c] zeros_mat mT_nth[of r c] zeros_nth)

lemma sym_mat: "mat p p A \<Longrightarrow> 0 < p \<Longrightarrow> mat p p (sym_part A)"
  unfolding sym_part_def by (auto intro!: mat_intros)

lemma sym_nth:
  "mat p p A \<Longrightarrow> i < p \<Longrightarrow> j < p \<Longrightarrow> sym_part A ! i ! j = (A ! i ! j + A ! j ! i) / 2"
  unfolding sym_part_def
  by (simp add: sdiv_nth[of p p] madd_mat mT_mat madd_nth[of p p] mT_nth[of p p])

lemma sym_residual:
  assumes "mat p p A" "0 < p"
  shows "sym_part (msub A (sym_part A)) = zeros p p"
proof (rule mat_eqI[of p p])
  have S: "mat p p (sym_part A)" using assms by (rule sym_mat)
  have D: "mat p p (msub A (sym_part A))" using assms(1) S by (rule msub_mat)
  show "mat p p (sym_part (msub A (sym_part A)))" using D assms(2) by (rule sym_mat)
  show "mat p p (zeros p p)" by (rule zeros_mat)
  fix i j assume ij: "i < p" "j < p"
  show "sym_part (msub A (sym_part A)) ! i ! j = zeros p p ! i ! j"
    using ij by (simp add: sym_nth[OF D] msub_nth[OF assms(1) S] sym_nth[OF assms(1)]
                           zeros_nth field_simps)
qed

text \<open>One block of the Stiefel projection, applied twice.\<close>

lemma proj_block_idem:
  assumes X: "mat n p X" and U: "mat n p U" and np: "0 < n" "0 < p"
    and orth: "matmul (mT X) X = eye p"
  shows "msub (msub U (matmul X (sym_part (matmul (mT X) U))))
              (matmul X (sym_part (matmul (mT X) (msub U (matmul X (sym_part (matmul (mT X) U)))))))
         = msub U (matmul X (sym_part (matmul (mT X) U)))"
proof -
  let ?A = "matmul (mT X) U"
  let ?P = "msub U (matmul X (sym_part ?A))"
  have Xt: "mat p n (mT X)" using X np by (auto intro!: mat_intros)
  have A: "mat p p ?A" by (rule matmul_mat[OF Xt U np(1)])
  have S: "mat p p (sym_part ?A)" using A np(2) by (rule sym_mat)
  have XS: "mat n p (matmul X (sym_part ?A))" by (rule matmul_mat[OF X S np(2)])
  have P: "mat n p ?P" by (rule msub_mat[OF U XS])
  have "matmul (mT X) ?P = msub ?A (matmul (mT X) (matmul X (sym_part ?A)))"
    using Xt U XS np(1) by (rule matmul_msub_right)
  also have "matmul (mT X) (matmul X (sym_part ?A)) = matmul (matmul (mT X) X) (sym_part ?A)"
    using matmul_assoc[OF Xt X S np] by simp
  also have "\<dots> = sym_part ?A"
    using orth S np by (simp add: matmul_eye_left)
  finally have "matmul (mT X) ?P = msub ?A (sym_part ?A)" .
  then have "sym_part (matmul (mT X) ?P) = zeros p p"
    using sym_residual[OF A] np by simp
  then have "matmul X (sym_part (matmul (mT X) ?P)) = zeros n p"
    using X np by (simp add: matmul_zeros_right)
  then show ?thesis using P by (simp add: msub_zeros)
qed

section \<open>Results on construction\<close>

text \<open>
  Rounding to a float at most doubles an integer, keeps what is below \<open>2 ^ 53\<close>, and never
  falls below a power of two that the integer has reached; \<open>str\<close> of an int below \<open>10 ^ d\<close> has
  at most \<open>d\<close> digits.
\<close>

lemma bit_length_lower: "0 < m \<Longrightarrow> 2 ^ (bit_length m - 1) \<le> m"
proof (induction m rule: bit_length.induct)
  case (1 m)
  show ?case
  proof (cases "m div 2 = 0")
    case True
    with 1(2) have "m = 1" by (simp add: div_eq_0_iff) 
    then show ?thesis by (simp add: bit_length.simps[of "Suc 0"] bit_length.simps[of 0])
  next
    case False
    then have pos: "0 < m div 2" by simp
    from 1(1)[OF _ pos] 1(2) have ih: "2 ^ (bit_length (m div 2) - 1) \<le> m div 2" by simp
    have bl: "bit_length m = Suc (bit_length (m div 2))"
      using 1(2) by (subst bit_length.simps) simp
    have "0 < bit_length (m div 2)" using pos by (subst bit_length.simps) simp
    then have "2 ^ (bit_length m - 1) = 2 * 2 ^ (bit_length (m div 2) - 1)"
      unfolding bl by (cases "bit_length (m div 2)") simp_all
    also have "\<dots> \<le> 2 * (m div 2)" using ih by simp
    also have "\<dots> \<le> m" by simp
    finally show ?thesis .
  qed
qed

lemma round_nat_small: "m < 2 ^ 53 \<Longrightarrow> round_nat m = m"
  by (simp add: round_nat_def)

lemma round_nat_le_double: "round_nat m \<le> 2 * m"
proof (cases "m < 2 ^ 53")
  case True
  then show ?thesis by (simp add: round_nat_def)
next
  case False
  define e where "e = bit_length m - 53"
  define q where "q = m div 2 ^ e"
  have mpos: "0 < m" using False by (cases m) auto
  have "(2::nat) ^ e \<le> 2 ^ (bit_length m - 1)"
    unfolding e_def by (rule power_increasing) auto
  also have "\<dots> \<le> m" by (rule bit_length_lower[OF mpos])
  finally have em: "2 ^ e \<le> m" .
  then have q1: "1 \<le> q" unfolding q_def
    by (simp add: div_greater_zero_iff Suc_le_eq)
  have qm: "q * 2 ^ e \<le> m" unfolding q_def by simp
  have "(q + 1) * 2 ^ e \<le> (2 * q) * 2 ^ e" using q1 by simp
  also have "\<dots> \<le> 2 * m" using qm by simp
  finally have up: "(q + 1) * 2 ^ e \<le> 2 * m" .
  from qm have down: "q * 2 ^ e \<le> 2 * m" by simp
  show ?thesis using False up down
    by (simp add: round_nat_def Let_def e_def[symmetric] q_def[symmetric])
qed

lemma round_nat_pos: "0 < m \<Longrightarrow> 0 < round_nat m"
proof (cases "m < 2 ^ 53")
  case True
  assume "0 < m"
  with True show ?thesis by (simp add: round_nat_def)
next
  case False
  assume mpos: "0 < m"
  define e where "e = bit_length m - 53"
  define q where "q = m div 2 ^ e"
  have "(2::nat) ^ e \<le> 2 ^ (bit_length m - 1)"
    unfolding e_def by (rule power_increasing) auto
  also have "\<dots> \<le> m" by (rule bit_length_lower[OF mpos])
  finally have em: "2 ^ e \<le> m" .
  then have q1: "0 < q" unfolding q_def
    by (simp add: div_greater_zero_iff)
  show ?thesis using False q1
    by (simp add: round_nat_def Let_def e_def[symmetric] q_def[symmetric])
qed

lemma round_int_small: "\<bar>i\<bar> < 2 ^ 53 \<Longrightarrow> round_int i = i"
  by (auto simp: round_int_def round_nat_small nat_less_iff abs_if split: if_splits)

lemma abs_round_int_le: "\<bar>round_int i\<bar> \<le> 2 * \<bar>i\<bar>"
  using round_nat_le_double[of "nat \<bar>i\<bar>"]
  by (auto simp: round_int_def abs_if)

lemma round_int_pos: "0 < i \<Longrightarrow> 0 < round_int i"
  using round_nat_pos[of "nat i"] by (simp add: round_int_def)

lemma round_int_nonneg: "0 \<le> i \<Longrightarrow> 0 \<le> round_int i"
  by (simp add: round_int_def)

lemma str_nat_length: "0 < d \<Longrightarrow> m < 10 ^ d \<Longrightarrow> length (str_nat m) \<le> d"
proof (induction m arbitrary: d rule: str_nat.induct)
  case (1 n)
  show ?case
  proof (cases "n < 10")
    case True
    then show ?thesis using 1(2) by (subst str_nat.simps) simp
  next
    case False
    from 1(3) False obtain d' where d: "d = Suc d'" "0 < d'"
      by (cases d; cases "d - 1") auto
    from 1(3) have "n div 10 < 10 ^ d'" unfolding d by (simp add: less_mult_imp_div_less mult.commute)
    from 1(1)[OF False d(2) this] have "length (str_nat (n div 10)) \<le> d'" .
    then show ?thesis using False unfolding d by (subst str_nat.simps) simp
  qed
qed

lemma round_nat_ge_pow: "2 ^ a \<le> m \<Longrightarrow> 2 ^ a \<le> round_nat m"
proof (cases "m < 2 ^ 53")
  case True
  assume "2 ^ a \<le> m"
  with True show ?thesis by (simp add: round_nat_def)
next
  case False
  assume am: "2 ^ a \<le> m"
  define e where "e = bit_length m - 53"
  define q where "q = m div 2 ^ e"
  have mpos: "0 < m" using False by (cases m) auto
  have "(2::nat) ^ e \<le> 2 ^ (bit_length m - 1)"
    unfolding e_def by (rule power_increasing) auto
  also have "\<dots> \<le> m" by (rule bit_length_lower[OF mpos])
  finally have em: "2 ^ e \<le> m" .
  then have q1: "1 \<le> q" unfolding q_def
    by (simp add: div_greater_zero_iff Suc_le_eq)
  have low: "2 ^ a \<le> q * 2 ^ e"
  proof (cases "e \<le> a")
    case True
    then have "(2::nat) ^ a = 2 ^ (a - e) * 2 ^ e"
      by (simp add: power_add[symmetric])
    moreover have "2 ^ (a - e) \<le> q"
    proof -
      have "(2::nat) ^ (a - e) = (2 ^ (a - e) * 2 ^ e) div 2 ^ e" by simp
      also have "\<dots> \<le> m div 2 ^ e"
        using am \<open>2 ^ a = 2 ^ (a - e) * 2 ^ e\<close> by (intro div_le_mono) simp
      finally show ?thesis by (simp add: q_def)
    qed
    ultimately show ?thesis by simp
  next
    case False
    then have "(2::nat) ^ a \<le> 2 ^ e" by (intro power_increasing) auto
    also have "\<dots> \<le> q * 2 ^ e" using q1 by simp
    finally show ?thesis .
  qed
  have up: "q * 2 ^ e \<le> (q + 1) * 2 ^ e" by simp
  show ?thesis using \<open>\<not> m < 2 ^ 53\<close> low up
    by (auto simp: round_nat_def Let_def e_def[symmetric] q_def[symmetric])
qed

lemma not_too_long: "\<bar>i\<bar> < 10 ^ max_str_digits \<Longrightarrow> \<not> too_long i"
proof -
  assume a: "\<bar>i\<bar> < 10 ^ max_str_digits"
  have "int (nat \<bar>i\<bar>) < int (10 ^ max_str_digits)" using a by simp
  then have "nat \<bar>i\<bar> < 10 ^ max_str_digits" by (simp only: of_nat_less_iff)
  moreover have "0 < max_str_digits" by (simp add: max_str_digits_def)
  ultimately have "length (str_nat (nat \<bar>i\<bar>)) \<le> max_str_digits"
    by (rule str_nat_length[rotated])
  then show ?thesis by (simp add: too_long_def)
qed

lemma pow_1020_digits: "(2::int) ^ 1020 \<le> 10 ^ max_str_digits"
proof -
  have "(2::int) ^ 1020 \<le> 10 ^ 1020" by (rule power_mono) simp_all
  also have "\<dots> \<le> 10 ^ max_str_digits"
    by (rule power_increasing) (simp_all add: max_str_digits_def)
  finally show ?thesis .
qed

lemma not_too_long_bound: "\<bar>i\<bar> < 2 ^ 1020 \<Longrightarrow> \<not> too_long i"
  using pow_1020_digits by (intro not_too_long) (rule less_le_trans)

lemma not_overflows: "2 * \<bar>i\<bar> < 2 ^ 1024 \<Longrightarrow> \<not> overflows i"
  using abs_round_int_le[of i] unfolding overflows_def by (rule_tac notI) (drule (1) order_trans, simp)

lemma half_le_square:
  fixes p :: int
  assumes "1 \<le> p"
  shows "0 \<le> p * (p + 1) div 2" "p * (p + 1) div 2 \<le> p * p"
proof -
  from assms have "0 \<le> p * (p + 1)" by simp
  then show "0 \<le> p * (p + 1) div 2" by simp
  have "p * (p + 1) \<le> 2 * (p * p)"
  proof -
    have "p * 1 \<le> p * p" using assms by (intro mult_left_mono) auto
    then show ?thesis by (simp add: distrib_left)
  qed
  then have "p * (p + 1) div 2 \<le> 2 * (p * p) div 2" by (rule zdiv_mono1) simp
  then show "p * (p + 1) div 2 \<le> p * p" by simp
qed

lemma dimension_operands:
  fixes n p k :: int
  assumes "p \<le> n" "1 \<le> p" "1 \<le> k"
  shows "0 \<le> p * (p + 1) div 2" "p * (p + 1) div 2 \<le> n * p" "1 \<le> n * p"
    "n * p \<le> k * n * p" "k \<le> k * n * p"
proof -
  show q0: "0 \<le> p * (p + 1) div 2" using half_le_square(1)[OF assms(2)] .
  have "p * p \<le> n * p" using assms by (intro mult_right_mono) auto
  with half_le_square(2)[OF assms(2)] show "p * (p + 1) div 2 \<le> n * p" by simp
  have "1 * 1 \<le> n * p" using assms by (intro mult_mono) auto
  then show N1: "1 \<le> n * p" by simp
  have "1 * (n * p) \<le> k * (n * p)" using assms N1 by (intro mult_right_mono) auto
  then show "n * p \<le> k * n * p" by (simp add: mult.assoc)
  have "k * 1 \<le> k * (n * p)" using assms N1 by (intro mult_left_mono) auto
  then show "k \<le> k * n * p" by (simp add: mult.assoc)
qed

lemma Stiefel_dimension_small:
  assumes "p \<le> n" "1 \<le> p" "1 \<le> k" "k * n * p < 2 ^ 53"
  shows "Stiefel_dimension n p k = Inr (k * (n * p - p * (p + 1) div 2))"
proof -
  define N where "N = n * p"
  define q where "q = p * (p + 1) div 2"
  have kN: "k * n * p = k * N" by (simp add: N_def mult.assoc)
  note ops = dimension_operands[OF assms(1-3), unfolded kN, folded N_def q_def]
  have lim: "k * N < 2 ^ 53" using assms(4) unfolding kN .
  have small: "\<bar>q\<bar> < 2 ^ 53" "\<bar>N\<bar> < 2 ^ 53" "\<bar>k\<bar> < 2 ^ 53" "\<bar>N - q\<bar> < 2 ^ 53"
    using ops assms(3) lim by linarith+
  have kd: "0 \<le> k * (N - q)" "k * (N - q) \<le> k * N"
    using ops assms(3) by (simp_all add: mult_left_mono)
  then have smallp: "\<bar>k * (N - q)\<bar> < 2 ^ 53" using lim by linarith
  have no: "\<not> overflows i" if "\<bar>i\<bar> < 2 ^ 53" for i
    using that by (simp add: overflows_def round_int_small)
  show ?thesis
    using small smallp
    by (simp add: Stiefel_dimension_def half_of_even_def float_of_int_def ieee_def no
                  round_int_small N_def[symmetric] q_def[symmetric])
qed

lemma not_overflows_1020:
  assumes "\<bar>i\<bar> \<le> 8 * x" "x < 2 ^ 1020"
  shows "\<not> overflows i"
proof -
  have lim: "(16::int) * 2 ^ 1020 = 2 ^ 1024" by simp
  from assms have "2 * \<bar>i\<bar> < 16 * 2 ^ 1020" by linarith
  then have "2 * \<bar>i\<bar> < 2 ^ 1024" unfolding lim .
  then show ?thesis by (rule not_overflows)
qed

lemma Stiefel_dimension_returns:
  assumes "p \<le> n" "1 \<le> p" "1 \<le> k" "k * n * p < 2 ^ 1020"
  shows "\<exists>d. Stiefel_dimension n p k = Inr d"
proof -
  define N where "N = n * p"
  define q where "q = p * (p + 1) div 2"
  define a where "a = round_int N"
  define b where "b = round_int q"
  define d where "d = round_int (a - b)"
  define kf where "kf = round_int k"
  have kNeq: "k * n * p = k * N" by (simp add: N_def mult.assoc)
  note ops = dimension_operands[OF assms(1-3), unfolded kNeq, folded N_def q_def]
  have kN: "k * N < 2 ^ 1020" using assms(4) unfolding kNeq .
  have N0: "0 \<le> N" using ops by simp
  have a: "0 \<le> a" "a \<le> 2 * N" using abs_round_int_le[of N] round_int_nonneg[OF N0] N0
    by (simp_all add: a_def)
  have b: "0 \<le> b" "b \<le> 2 * N" using abs_round_int_le[of q] round_int_nonneg[OF ops(1)] ops
    by (simp_all add: b_def)
  have ab: "\<bar>a - b\<bar> \<le> 2 * N" using a b by simp
  have d: "\<bar>d\<bar> \<le> 4 * N" using abs_round_int_le[of "a - b"] ab by (simp add: d_def)
  have kf: "0 < kf" "kf \<le> 2 * k" using abs_round_int_le[of k] round_int_pos[of k] assms(3)
    by (simp_all add: kf_def)
  have "\<bar>kf * d\<bar> = kf * \<bar>d\<bar>" using kf by (simp add: abs_mult)
  also have "\<dots> \<le> (2 * k) * (4 * N)" using kf d N0 assms(3) by (intro mult_mono) auto
  finally have prod: "\<bar>kf * d\<bar> \<le> 8 * (k * N)" by simp
  have o1: "\<not> overflows q" using ops by (intro not_overflows_1020[OF _ kN]) linarith
  have o2: "\<not> overflows N" using ops by (intro not_overflows_1020[OF _ kN]) linarith
  have o3: "\<not> overflows k" using ops assms(3) by (intro not_overflows_1020[OF _ kN]) linarith
  have o4: "\<not> overflows (a - b)" using ab ops by (intro not_overflows_1020[OF _ kN]) linarith
  have o5: "\<not> overflows (kf * d)" using prod by (intro not_overflows_1020[OF _ kN])
  show ?thesis
    using o1 o2 o3 o4 o5
    by (simp add: Stiefel_dimension_def half_of_even_def float_of_int_def ieee_def
                  N_def[symmetric] q_def[symmetric] a_def[symmetric] b_def[symmetric]
                  d_def[symmetric] kf_def[symmetric])
qed

lemma ieee_cases: "(\<exists>r. ieee i = Finite r) \<or> ieee i = PosInf \<or> ieee i = NegInf"
  by (simp add: ieee_def)

lemma Stiefel_dimension_cases:
  assumes "1 \<le> k"
  shows "(\<exists>d. Stiefel_dimension n p k = Inr d) \<or> Stiefel_dimension n p k = Inl OverflowError"
proof -
  have kf: "0 < round_int k" using assms by (intro round_int_pos) simp
  have mul: "(\<exists>d. int_of_float (float_mul (Finite (round_int k)) x) = Inr d)
             \<or> int_of_float (float_mul (Finite (round_int k)) x) = Inl OverflowError"
    if "x \<noteq> NaN" for x
  proof (cases x)
    case (Finite r)
    then show ?thesis using ieee_cases[of "round_int k * r"] by auto
  next
    case PosInf
    then show ?thesis using kf by simp
  next
    case NegInf
    then show ?thesis using kf by simp
  next
    case NaN
    with that show ?thesis by simp
  qed
  have sub: "float_sub (Finite a) (Finite b) \<noteq> NaN" for a b
    using ieee_cases[of "a - b"] by auto
  show ?thesis
    using mul[OF sub]
    by (auto simp: Stiefel_dimension_def half_of_even_def float_of_int_def split: sum.splits)
qed

lemma Stiefel_name_cases:
  "(\<exists>name. Stiefel_name n p k = Inr name)
   \<or> (Stiefel_name n p k = Inl (ValueError Exceeds_the_limit_for_integer_string_conversion)
      \<and> (too_long n \<or> too_long p \<or> too_long k))"
  by (simp add: Stiefel_name_def format_int_def)

lemma Stiefel_name_returns:
  assumes "\<not> too_long n" "\<not> too_long p" "\<not> too_long k"
  shows "Stiefel_name n p k =
           Inr (if k = 1 then ''Stiefel manifold St('' @ str_int n @ '','' @ str_int p @ '')''
                else ''Product Stiefel manifold St('' @ str_int n @ '','' @ str_int p @ '')^''
                     @ str_int k)"
  using assms by (simp add: Stiefel_name_def format_int_def)

lemma FixedRank_name_cases:
  "(\<exists>name. FixedRank_name m n k = Inr name)
   \<or> (FixedRank_name m n k = Inl (ValueError Exceeds_the_limit_for_integer_string_conversion)
      \<and> (too_long m \<or> too_long n \<or> too_long k))"
  by (simp add: FixedRank_name_def format_int_def)

lemma FixedRank_name_returns:
  assumes "\<not> too_long m" "\<not> too_long n" "\<not> too_long k"
  shows "FixedRank_name m n k =
           Inr (''Embedded manifold of '' @ str_int m @ ''x'' @ str_int n @ '' matrices of rank ''
                @ str_int k)"
  using assms by (simp add: FixedRank_name_def format_int_def)

lemma Stiefel_init_fields:
  "Stiefel_init n p k = Inr self \<Longrightarrow>
   st_n self = n \<and> st_p self = p \<and> st_k self = k \<and> p \<le> n \<and> 1 \<le> p \<and> 1 \<le> k"
  by (auto simp: Stiefel_init_def split: if_splits sum.splits)

lemma Stiefel_init_invalid:
  "n < p \<or> p < 1 \<or> k < 1 \<Longrightarrow> \<exists>msg. Stiefel_init n p k = Inl (ValueError msg)"
  by (auto simp: Stiefel_init_def)

lemma Stiefel_init_cases:
  assumes "p \<le> n" "1 \<le> p" "1 \<le> k"
  shows "(\<exists>s. Stiefel_init n p k = Inr s) \<or> Stiefel_init n p k = Inl OverflowError
         \<or> (Stiefel_init n p k = Inl (ValueError Exceeds_the_limit_for_integer_string_conversion)
            \<and> (too_long n \<or> too_long p \<or> too_long k))"
  using assms Stiefel_name_cases[of n p k] Stiefel_dimension_cases[OF assms(3), of n p]
  by (auto simp: Stiefel_init_def)

lemma parameters_below:
  fixes n p k :: int
  assumes "p \<le> n" "1 \<le> p" "1 \<le> k" "k * n * p < L"
  shows "\<bar>n\<bar> < L" "\<bar>p\<bar> < L" "\<bar>k\<bar> < L"
proof -
  have n1: "1 \<le> n" using assms by simp
  have "n * 1 \<le> n * p" using assms n1 by (intro mult_left_mono) auto
  then have np: "n \<le> n * p" by simp
  have "1 * (n * p) \<le> k * (n * p)" using assms n1 by (intro mult_right_mono) auto
  then have "n * p \<le> k * n * p" by (simp add: mult.assoc)
  with np assms show "\<bar>n\<bar> < L" "\<bar>p\<bar> < L" by linarith+
  from dimension_operands(5)[OF assms(1-3)] assms show "\<bar>k\<bar> < L" by linarith
qed

lemma Stiefel_init_returns:
  assumes "p \<le> n" "1 \<le> p" "1 \<le> k" "k * n * p < 2 ^ 1020"
  shows "\<exists>s. Stiefel_init n p k = Inr s"
proof -
  note b = parameters_below[OF assms]
  from Stiefel_dimension_returns[OF assms] obtain d where "Stiefel_dimension n p k = Inr d" ..
  then show ?thesis
    using assms(1-3) Stiefel_name_returns[OF b[THEN not_too_long_bound]]
    by (simp add: Stiefel_init_def)
qed

lemma Stiefel_init_small:
  assumes "p \<le> n" "1 \<le> p" "1 \<le> k" "k * n * p < 2 ^ 53"
  shows "Stiefel_init n p k =
           Inr \<lparr> st_n = n, st_p = p, st_k = k,
                 st_name =
                   (if k = 1
                    then ''Stiefel manifold St('' @ str_int n @ '','' @ str_int p @ '')''
                    else ''Product Stiefel manifold St('' @ str_int n @ '','' @ str_int p
                           @ '')^'' @ str_int k),
                 st_dim = k * (n * p - p * (p + 1) div 2),
                 st_point_layout = Components 1 \<rparr>"
proof -
  have "(2::int) ^ 53 \<le> 2 ^ 1020" by (rule power_increasing) simp_all
  with assms(4) have "k * n * p < 2 ^ 1020" by (rule less_le_trans)
  note b = parameters_below[OF assms(1-3) this]
  show ?thesis
    using assms(1-3) Stiefel_name_returns[OF b[THEN not_too_long_bound]]
      Stiefel_dimension_small[OF assms]
    by (simp add: Stiefel_init_def)
qed

lemma FixedRankEmbedded_init_fields:
  assumes "FixedRankEmbedded_init m n k = Inr self"
  shows "fr_m self = m \<and> fr_n self = n \<and> fr_k self = k \<and> 1 \<le> k \<and> k \<le> m \<and> k \<le> n
         \<and> Stiefel_init m k 1 = Inr (fr_stiefel_m self)
         \<and> Stiefel_init n k 1 = Inr (fr_stiefel_n self)"
  using assms
  by (auto simp: FixedRankEmbedded_init_def split: sum.splits dest: Stiefel_init_fields)

lemma FixedRankEmbedded_init_invalid:
  assumes "min m n < k \<or> k < 1 \<or> m \<le> 0 \<or> n \<le> 0"
  shows "\<nexists>f. FixedRankEmbedded_init m n k = Inr f"
  using assms by (auto dest!: FixedRankEmbedded_init_fields)

lemma FixedRankEmbedded_init_invalid_ValueError:
  assumes inv: "min m n < k \<or> k < 1 \<or> m \<le> 0 \<or> n \<le> 0" and b: "m * k < 2 ^ 1020"
  shows "\<exists>msg. FixedRankEmbedded_init m n k = Inl (ValueError msg)"
proof (cases "m < k \<or> k < 1")
  case True
  then have "m < k \<or> k < 1 \<or> (1::int) < 1" by simp
  from Stiefel_init_invalid[OF this] show ?thesis
    by (auto simp: FixedRankEmbedded_init_def)
next
  case False
  then have v: "k \<le> m" "1 \<le> k" by simp_all
  with inv have "n < k \<or> k < 1 \<or> (1::int) < 1" by auto
  from Stiefel_init_invalid[OF this] obtain msg where
    n: "Stiefel_init n k 1 = Inl (ValueError msg)" ..
  from b have "1 * m * k < 2 ^ 1020" by simp
  from Stiefel_init_returns[OF v(1,2) _ this] obtain sm where "Stiefel_init m k 1 = Inr sm"
    by auto
  with n show ?thesis by (simp add: FixedRankEmbedded_init_def)
qed

lemma FixedRankEmbedded_init_cases:
  assumes "k \<le> m" "k \<le> n" "1 \<le> k"
  shows "(\<exists>f. FixedRankEmbedded_init m n k = Inr f)
         \<or> FixedRankEmbedded_init m n k = Inl OverflowError
         \<or> (FixedRankEmbedded_init m n k
              = Inl (ValueError Exceeds_the_limit_for_integer_string_conversion)
            \<and> (too_long m \<or> too_long n \<or> too_long k))"
proof -
  have one: "\<not> too_long 1"
    by (simp add: too_long_def max_str_digits_def)
  from Stiefel_init_cases[OF assms(1,3), of 1] one
  have a: "(\<exists>s. Stiefel_init m k 1 = Inr s) \<or> Stiefel_init m k 1 = Inl OverflowError
         \<or> (Stiefel_init m k 1 = Inl (ValueError Exceeds_the_limit_for_integer_string_conversion)
            \<and> (too_long m \<or> too_long k))" by simp
  from Stiefel_init_cases[OF assms(2,3), of 1] one
  have b: "(\<exists>s. Stiefel_init n k 1 = Inr s) \<or> Stiefel_init n k 1 = Inl OverflowError
         \<or> (Stiefel_init n k 1 = Inl (ValueError Exceeds_the_limit_for_integer_string_conversion)
            \<and> (too_long n \<or> too_long k))" by simp
  from a b FixedRank_name_cases[of m n k] show ?thesis
    by (auto simp: FixedRankEmbedded_init_def)
qed

lemma FixedRankEmbedded_init_returns:
  assumes "k \<le> m" "k \<le> n" "1 \<le> k" "m * k < 2 ^ 1020" "n * k < 2 ^ 1020"
  shows "\<exists>f. FixedRankEmbedded_init m n k = Inr f"
proof -
  from assms(4) have bm: "1 * m * k < 2 ^ 1020" by simp
  from assms(5) have bn: "1 * n * k < 2 ^ 1020" by simp
  from Stiefel_init_returns[OF assms(1,3) _ bm] obtain sm where sm: "Stiefel_init m k 1 = Inr sm"
    by auto
  from Stiefel_init_returns[OF assms(2,3) _ bn] obtain sn where sn: "Stiefel_init n k 1 = Inr sn"
    by auto
  have one: "(1::int) \<le> 1" by simp
  note pm = parameters_below[OF assms(1,3) one bm]
  note pn = parameters_below[OF assms(2,3) one bn]
  from FixedRank_name_returns[OF pm(1)[THEN not_too_long_bound] pn(1)[THEN not_too_long_bound]
         pm(2)[THEN not_too_long_bound]] sm sn
  show ?thesis by (simp add: FixedRankEmbedded_init_def)
qed

lemma FixedRankEmbedded_init_small:
  assumes "k \<le> m" "k \<le> n" "1 \<le> k" "m * k < 2 ^ 53" "n * k < 2 ^ 53"
  shows "\<exists>f. FixedRankEmbedded_init m n k = Inr f"
proof -
  have le: "(2::int) ^ 53 \<le> 2 ^ 1020" by (rule power_increasing) simp_all
  from assms(4) le have a: "m * k < 2 ^ 1020" by (rule less_le_trans)
  from assms(5) le have b: "n * k < 2 ^ 1020" by (rule less_le_trans)
  from FixedRankEmbedded_init_returns[OF assms(1-3) a b] show ?thesis .
qed

lemmas init_eval =
  Stiefel_init_small FixedRankEmbedded_init_def FixedRank_name_def format_int_def too_long_def
  max_str_digits_def

lemma overflows_big: "2 ^ 1024 \<le> i \<Longrightarrow> overflows i"
proof -
  assume a: "2 ^ 1024 \<le> i"
  have z: "(0::int) \<le> 2 ^ 1024" by (rule zero_le_power) simp
  from z a have i0: "0 \<le> i" by (rule order_trans)
  have "int (2 ^ 1024) \<le> int (nat i)" using a i0 by simp
  then have "2 ^ 1024 \<le> nat i" by (simp only: of_nat_le_iff)
  then have "2 ^ 1024 \<le> round_nat (nat i)" by (rule round_nat_ge_pow)
  then have "int (2 ^ 1024) \<le> int (round_nat (nat i))" by (simp only: of_nat_le_iff)
  then show ?thesis using i0 by (simp add: overflows_def round_int_def)
qed

text \<open>
  Claim C3, as the code has it.  \<open>Stiefel(n, p, k)\<close> raises a ValueError whenever \<open>n < p\<close>,
  \<open>p < 1\<close> or \<open>k < 1\<close>.  With valid parameters it returns the instance when \<open>k * n * p\<close> is
  below \<open>2 ^ 1020\<close>; beyond that it returns, or raises an OverflowError from the float
  arithmetic of the dimension, or a ValueError from formatting an int of more than 4300
  digits in the name, and nothing else.  \<open>FixedRankEmbedded(m, n, k)\<close> never returns when
  \<open>k > min(m, n)\<close>, \<open>k < 1\<close> or one of \<open>m\<close>, \<open>n\<close> is not positive, and what it raises then is a
  ValueError when \<open>m * k\<close> is below \<open>2 ^ 1020\<close>; with valid parameters it returns the instance
  when \<open>m * k\<close> and \<open>n * k\<close> are below \<open>2 ^ 1020\<close>, and beyond that it behaves as Stiefel does.
\<close>

theorem construction_errors_amended:
  "(n < p \<or> p < 1 \<or> k < 1 \<longrightarrow> (\<exists>msg. Stiefel_init n p k = Inl (ValueError msg)))
   \<and> (p \<le> n \<and> 1 \<le> p \<and> 1 \<le> k \<and> k * n * p < 2 ^ 1020 \<longrightarrow> (\<exists>s. Stiefel_init n p k = Inr s))
   \<and> (p \<le> n \<and> 1 \<le> p \<and> 1 \<le> k \<longrightarrow>
        (\<exists>s. Stiefel_init n p k = Inr s) \<or> Stiefel_init n p k = Inl OverflowError
        \<or> (Stiefel_init n p k = Inl (ValueError Exceeds_the_limit_for_integer_string_conversion)
           \<and> (too_long n \<or> too_long p \<or> too_long k)))
   \<and> (min m n' < k' \<or> k' < 1 \<or> m \<le> 0 \<or> n' \<le> 0 \<longrightarrow>
        (\<nexists>f. FixedRankEmbedded_init m n' k' = Inr f))
   \<and> ((min m n' < k' \<or> k' < 1 \<or> m \<le> 0 \<or> n' \<le> 0) \<and> m * k' < 2 ^ 1020 \<longrightarrow>
        (\<exists>msg. FixedRankEmbedded_init m n' k' = Inl (ValueError msg)))
   \<and> (k' \<le> min m n' \<and> 1 \<le> k' \<and> m * k' < 2 ^ 1020 \<and> n' * k' < 2 ^ 1020 \<longrightarrow>
        (\<exists>f. FixedRankEmbedded_init m n' k' = Inr f))
   \<and> (k' \<le> min m n' \<and> 1 \<le> k' \<longrightarrow>
        (\<exists>f. FixedRankEmbedded_init m n' k' = Inr f)
        \<or> FixedRankEmbedded_init m n' k' = Inl OverflowError
        \<or> (FixedRankEmbedded_init m n' k'
             = Inl (ValueError Exceeds_the_limit_for_integer_string_conversion)
           \<and> (too_long m \<or> too_long n' \<or> too_long k')))"
proof (intro conjI impI)
  assume "n < p \<or> p < 1 \<or> k < 1"
  then show "\<exists>msg. Stiefel_init n p k = Inl (ValueError msg)" by (rule Stiefel_init_invalid)
next
  assume "p \<le> n \<and> 1 \<le> p \<and> 1 \<le> k \<and> k * n * p < 2 ^ 1020"
  then show "\<exists>s. Stiefel_init n p k = Inr s" by (intro Stiefel_init_returns) blast+
next
  assume "p \<le> n \<and> 1 \<le> p \<and> 1 \<le> k"
  then show "(\<exists>s. Stiefel_init n p k = Inr s) \<or> Stiefel_init n p k = Inl OverflowError
        \<or> (Stiefel_init n p k = Inl (ValueError Exceeds_the_limit_for_integer_string_conversion)
           \<and> (too_long n \<or> too_long p \<or> too_long k))"
    by (intro Stiefel_init_cases) blast+
next
  assume "min m n' < k' \<or> k' < 1 \<or> m \<le> 0 \<or> n' \<le> 0"
  then show "\<nexists>f. FixedRankEmbedded_init m n' k' = Inr f"
    by (rule FixedRankEmbedded_init_invalid)
next
  assume "(min m n' < k' \<or> k' < 1 \<or> m \<le> 0 \<or> n' \<le> 0) \<and> m * k' < 2 ^ 1020"
  then show "\<exists>msg. FixedRankEmbedded_init m n' k' = Inl (ValueError msg)"
    by (intro FixedRankEmbedded_init_invalid_ValueError) blast+
next
  assume a: "k' \<le> min m n' \<and> 1 \<le> k' \<and> m * k' < 2 ^ 1020 \<and> n' * k' < 2 ^ 1020"
  then have "k' \<le> m" "k' \<le> n'" by simp_all
  with a show "\<exists>f. FixedRankEmbedded_init m n' k' = Inr f"
    by (intro FixedRankEmbedded_init_returns) blast+
next
  assume a: "k' \<le> min m n' \<and> 1 \<le> k'"
  then have "k' \<le> m" "k' \<le> n'" by simp_all
  with a show "(\<exists>f. FixedRankEmbedded_init m n' k' = Inr f)
        \<or> FixedRankEmbedded_init m n' k' = Inl OverflowError
        \<or> (FixedRankEmbedded_init m n' k'
             = Inl (ValueError Exceeds_the_limit_for_integer_string_conversion)
           \<and> (too_long m \<or> too_long n' \<or> too_long k'))"
    by (intro FixedRankEmbedded_init_cases) blast+
qed

theorem construction_errors_amended_witness:
  "Stiefel_init 2 3 1 = Inl (ValueError (Need_n_ge_p_ge_1 2 3))
   \<and> Stiefel_init 5 2 0 = Inl (ValueError (Need_k_ge_1 0))
   \<and> (\<exists>s. Stiefel_init 5 2 1 = Inr s)
   \<and> (\<exists>msg. FixedRankEmbedded_init 5 4 5 = Inl (ValueError msg))
   \<and> (\<exists>f. FixedRankEmbedded_init 5 4 3 = Inr f)"
proof -
  note inst = construction_errors_amended
  have digits: "\<not> too_long 0" "\<not> too_long 2" "\<not> too_long 3" "\<not> too_long 5"
    by (simp_all add: too_long_def max_str_digits_def)
  have a: "Stiefel_init 2 3 1 = Inl (ValueError (Need_n_ge_p_ge_1 2 3))"
    by (simp add: Stiefel_init_def digits)
  have b: "Stiefel_init 5 2 0 = Inl (ValueError (Need_k_ge_1 0))"
    by (simp add: Stiefel_init_def digits)
  have small: "(10::int) < 2 ^ 1020" "(25::int) < 2 ^ 1020" "(15::int) < 2 ^ 1020"
    "(12::int) < 2 ^ 1020"
    by simp_all
  have c: "\<exists>s. Stiefel_init 5 2 1 = Inr s"
    using inst [where n = 5 and p = 2 and k = 1] small by simp
  have d: "\<exists>msg. FixedRankEmbedded_init 5 4 5 = Inl (ValueError msg)"
    using inst [where m = 5 and n' = 4 and k' = 5] small by simp
  have e: "\<exists>f. FixedRankEmbedded_init 5 4 3 = Inr f"
    using inst [where m = 5 and n' = 4 and k' = 3] small by simp
  from a b c d e show ?thesis by blast
qed

text \<open>
  The claim as the specification states it, that construction with valid parameters
  succeeds, fails at \<open>Stiefel(10 ** 309, 1, 1)\<close>: the subtraction in the dimension converts
  \<open>n * p\<close> to a float, and \<open>10 ** 309\<close> is beyond the largest float.
\<close>

theorem construction_can_overflow:
  "\<not> ((10::int) ^ 309 < 1 \<or> (1::int) < 1 \<or> (1::int) < 1)
   \<and> Stiefel_init (10 ^ 309) 1 1 = Inl OverflowError"
proof -
  have pos: "(1::int) \<le> 10 ^ 309" by (rule one_le_power) simp
  have "\<bar>(10::int) ^ 309\<bar> = 10 ^ 309" by (rule abs_of_nonneg) (rule zero_le_power, simp)
  moreover have "(10::int) ^ 309 < 10 ^ max_str_digits"
    by (rule power_strict_increasing) (simp_all add: max_str_digits_def)
  ultimately have "\<bar>(10::int) ^ 309\<bar> < 10 ^ max_str_digits" by (simp only:)
  then have n: "\<not> too_long (10 ^ 309)" by (rule not_too_long)
  have one: "\<not> too_long 1" by (simp add: too_long_def max_str_digits_def)
  from Stiefel_name_returns[OF n one one] obtain name where
    name: "Stiefel_name (10 ^ 309) 1 1 = Inr name" by blast
  have "(2::int) ^ 1024 \<le> 10 ^ 309" by simp
  then have big: "overflows (10 ^ 309)" by (rule overflows_big)
  have o1: "\<not> overflows 1" by (simp add: overflows_def round_int_small)
  have h: "half_of_even (1 * (1 + 1)) = Inr (Finite 1)"
    by (simp add: half_of_even_def float_of_int_def o1 round_int_small)
  have f: "float_of_int (10 ^ 309 * 1) = Inl OverflowError"
    using big by (simp only: mult_1_right float_of_int_def if_True)
  have dim: "Stiefel_dimension (10 ^ 309) 1 1 = Inl OverflowError"
    by (simp only: Stiefel_dimension_def h f sum.case)
  have valid: "\<not> ((10::int) ^ 309 < 1 \<or> (1::int) < 1)" using pos by simp
  have "Stiefel_init (10 ^ 309) 1 1 = Inl OverflowError"
    using valid by (simp only: Stiefel_init_def if_False name dim sum.case less_irrefl)
  with valid show ?thesis by simp
qed

text \<open>
  Claim C10.  \<open>Product()\<close> with no factor raises the ValueError ``At least one manifold
  required'', so every Product that was constructed has at least one factor.
\<close>

theorem Product_needs_a_factor:
  "Product_init B np_sum [] = Inl (ValueError At_least_one_manifold_required)
   \<and> (Product_init B np_sum manifolds = Inr self \<longrightarrow>
        (\<exists>ms. factors self = Some ms \<and> 1 \<le> length ms \<and> length ms = length manifolds))"
proof
  show "Product_init B np_sum [] = Inl (ValueError At_least_one_manifold_required)"
    by (simp add: Product_init_def)
next
  show "Product_init B np_sum manifolds = Inr self \<longrightarrow>
        (\<exists>ms. factors self = Some ms \<and> 1 \<le> length ms \<and> length ms = length manifolds)"
  proof
    assume ok: "Product_init B np_sum manifolds = Inr self"
    then have ne: "manifolds \<noteq> []"
      by (auto simp: Product_init_def)
    from ok obtain ms where ms: "check_manifolds manifolds = Inr ms"
      by (auto simp: Product_init_def split: sum.splits if_splits)
    have len: "length ms = length manifolds" using ms
    proof (induction manifolds arbitrary: ms rule: check_manifolds.induct)
      case (4 m as)
      then show ?case by (auto split: sum.splits)
    qed auto
    from ok ms ne have "self ''_manifolds'' = Some (VManifolds ms)"
      by (auto simp: Product_init_def Manifold_init_def Product_setattr_def object_setattr_def
               split: sum.splits if_splits)
    then have "factors self = Some ms"
      by (simp add: factors_def)
    with len ne show "\<exists>ms. factors self = Some ms \<and> 1 \<le> length ms \<and> length ms = length manifolds"
      by (cases manifolds) auto
  qed
qed

theorem Product_needs_a_factor_witness:
  "\<exists>s self ms. Stiefel_init 5 2 1 = Inr s
      \<and> Product_init \<lparr>base_attrs = {''dim''}, base_readonly = {''dim''}\<rparr> sum_list
            [AManifold (MStiefel s)] = Inr self
      \<and> factors self = Some ms \<and> 1 \<le> length ms \<and> length ms = 1"
proof -
  let ?B = "\<lparr>base_attrs = {''dim''}, base_readonly = {''dim''}\<rparr>"
  obtain s where s: "Stiefel_init 5 2 1 = Inr s"
    by (simp add: Stiefel_init_small)
  obtain self where self: "Product_init ?B sum_list [AManifold (MStiefel s)] = Inr self"
    by (simp add: Product_init_def Manifold_init_def Product_setattr_def object_setattr_def
                  hasattr_def)
  from Product_needs_a_factor [of ?B sum_list "[AManifold (MStiefel s)]" self] self
  obtain ms where "factors self = Some ms" "1 \<le> length ms" "length ms = 1"
    by auto
  with s self show ?thesis by blast
qed

text \<open>
  Claim C2, evaluated on the code.  The factors live in the attribute \<open>_manifolds\<close>; the guard
  of \<open>__setattr__\<close> compares the key with \<open>manifolds\<close>, a name that neither the constructor
  nor the class body binds.  So after construction an assignment to \<open>_manifolds\<close> succeeds and
  replaces the factor list, and (when the base classes define no attribute \<open>manifolds\<close>) an
  assignment to \<open>manifolds\<close> succeeds as well.
\<close>

theorem Product_factor_list_can_be_rebound:
  assumes "Product_init B np_sum manifolds = Inr self"
  shows "Product_setattr B self ''_manifolds'' (VManifolds ms')
           = Inr (self(''_manifolds'' \<mapsto> VManifolds ms'))
         \<and> factors (self(''_manifolds'' \<mapsto> VManifolds ms')) = Some ms'
         \<and> (''manifolds'' \<notin> base_attrs B \<and> ''manifolds'' \<notin> base_readonly B \<longrightarrow>
              Product_setattr B self ''manifolds'' v = Inr (self(''manifolds'' \<mapsto> v)))"
proof -
  from assms obtain ms where ms: "check_manifolds manifolds = Inr ms"
    by (auto simp: Product_init_def split: sum.splits if_splits)
  from assms ms obtain self0 where
    s0: "Product_setattr B Map.empty ''_manifolds'' (VManifolds ms) = Inr self0"
    by (auto simp: Product_init_def split: sum.splits if_splits)
  then have nro: "''_manifolds'' \<notin> base_readonly B"
    by (auto simp: Product_setattr_def object_setattr_def split: if_splits)
  have a: "Product_setattr B self ''_manifolds'' (VManifolds ms')
           = Inr (self(''_manifolds'' \<mapsto> VManifolds ms'))"
    using nro by (simp add: Product_setattr_def object_setattr_def)
  have b: "factors (self(''_manifolds'' \<mapsto> VManifolds ms')) = Some ms'"
    by (simp add: factors_def)
  from assms ms s0 have dom: "dom self = {''_manifolds'', ''_dimension'', ''_point_layout''}"
    by (auto simp: Product_init_def Manifold_init_def Product_setattr_def object_setattr_def
             split: sum.splits if_splits)
  have c: "''manifolds'' \<notin> base_attrs B \<and> ''manifolds'' \<notin> base_readonly B \<longrightarrow>
              Product_setattr B self ''manifolds'' v = Inr (self(''manifolds'' \<mapsto> v))"
    using dom by (auto simp: Product_setattr_def object_setattr_def hasattr_def
                             Product_class_attrs_def)
  from a b c show ?thesis by blast
qed

theorem Product_factor_list_can_be_rebound_witness:
  "\<exists>s self. Stiefel_init 3 2 1 = Inr s
      \<and> Product_init \<lparr>base_attrs = {''dim''}, base_readonly = {''dim''}\<rparr> sum_list
            [AManifold (MStiefel s)] = Inr self
      \<and> factors self = Some [MStiefel s]
      \<and> Product_setattr \<lparr>base_attrs = {''dim''}, base_readonly = {''dim''}\<rparr>
            self ''_manifolds'' (VManifolds []) = Inr (self(''_manifolds'' \<mapsto> VManifolds []))
      \<and> factors (self(''_manifolds'' \<mapsto> VManifolds [])) = Some []
      \<and> Product_setattr \<lparr>base_attrs = {''dim''}, base_readonly = {''dim''}\<rparr>
            self ''manifolds'' VOther = Inr (self(''manifolds'' \<mapsto> VOther))"
proof -
  let ?B = "\<lparr>base_attrs = {''dim''}, base_readonly = {''dim''}\<rparr>"
  obtain s where s: "Stiefel_init 3 2 1 = Inr s"
    by (simp add: Stiefel_init_small)
  obtain self where self: "Product_init ?B sum_list [AManifold (MStiefel s)] = Inr self"
    by (simp add: Product_init_def Manifold_init_def Product_setattr_def object_setattr_def
                  hasattr_def)
  then have f: "factors self = Some [MStiefel s]"
    by (auto simp: Product_init_def Manifold_init_def Product_setattr_def object_setattr_def
                   hasattr_def factors_def split: if_splits)
  from Product_factor_list_can_be_rebound [OF self, of "[]" VOther] s self f
  show ?thesis by auto
qed

section \<open>The metric of Stiefel\<close>

lemma sum_list_map2_sum:
  "length xs = length ys \<Longrightarrow> sum_list (map2 f xs ys) = (\<Sum>i<length xs. f (xs ! i) (ys ! i))"
  by (simp add: sum_list_sum_nth atLeast0LessThan)

lemma tensordot2_sum:
  assumes "mat r c G" "mat r c H"
  shows "tensordot2 G H = (\<Sum>i<r. \<Sum>j<c. G ! i ! j * H ! i ! j)"
proof -
  have "tensordot2 G H = (\<Sum>i<r. dot (G ! i) (H ! i))"
    using assms by (simp add: tensordot2_def sum_list_map2_sum mat_length)
  also have "\<dots> = (\<Sum>i<r. \<Sum>j<c. G ! i ! j * H ! i ! j)"
    using assms by (intro sum.cong refl dot_sum) (auto simp: mat_nth_length)
  finally show ?thesis .
qed

lemma dot_commute: "dot u v = dot v u"
proof -
  have "map2 (*) u v = map2 (*) v u"
    by (induction u v rule: list_induct2') (auto simp: mult.commute)
  then show ?thesis by (simp add: dot_def)
qed

lemma tensordot2_commute: "tensordot2 G H = tensordot2 H G"
proof -
  have "map2 dot G H = map2 dot H G"
    by (induction G H rule: list_induct2') (auto simp: dot_commute)
  then show ?thesis by (simp add: tensordot2_def)
qed

lemma tensordot_all_commute: "ndim G = ndim H \<Longrightarrow> 2 \<le> ndim G \<Longrightarrow> tensordot_all G H = tensordot_all H G"
proof (cases G; cases H)
  fix Gs Hs assume "G = Arr3 Gs" "H = Arr3 Hs"
  moreover have "map2 tensordot2 Gs Hs = map2 tensordot2 Hs Gs"
    by (induction Gs Hs rule: list_induct2') (auto simp: tensordot2_commute)
  ultimately show "tensordot_all G H = tensordot_all H G" by simp
qed (auto simp: tensordot2_commute)

lemma has_shape_ndim: "has_shape sh A \<Longrightarrow> ndim A = length sh"
  by (induction sh A rule: has_shape.induct) auto

lemma tensordot_all_frobenius:
  assumes "has_shape sh G" "has_shape sh H" "2 \<le> length sh"
  shows "tensordot_all G H = frobenius G H"
  using assms
proof (induction sh G rule: has_shape.induct)
  case (2 r c A)
  then obtain B where H: "H = Arr2 B" "mat r c B" by (cases H) auto
  show ?case
  proof (cases "r = 0")
    case True
    then show ?thesis using 2 H by (simp add: tensordot2_def mat_def)
  next
    case False
    then show ?thesis using 2 H
      by (simp add: tensordot2_sum[of r c] mat_length ncols_mat)
  qed
next
  case (3 k r c As)
  then obtain Bs where H: "H = Arr3 Bs" "length Bs = k" "list_all (mat r c) Bs" by (cases H) auto
  have "sum_list (map2 tensordot2 As Bs) = (\<Sum>b<k. tensordot2 (As ! b) (Bs ! b))"
    using 3 H by (simp add: sum_list_map2_sum)
  also have "\<dots> = (\<Sum>b<k. \<Sum>i<length (As ! b). \<Sum>j<ncols (As ! b). As ! b ! i ! j * Bs ! b ! i ! j)"
  proof (rule sum.cong[OF refl])
    fix b assume "b \<in> {..<k}"
    then have A: "mat r c (As ! b)" and B: "mat r c (Bs ! b)"
      using 3 H by (auto simp: list_all_length)
    show "tensordot2 (As ! b) (Bs ! b)
          = (\<Sum>i<length (As ! b). \<Sum>j<ncols (As ! b). As ! b ! i ! j * Bs ! b ! i ! j)"
    proof (cases "r = 0")
      case True
      then show ?thesis using A B by (simp add: tensordot2_def mat_def)
    next
      case False
      then show ?thesis using A B by (simp add: tensordot2_sum[of r c] mat_length ncols_mat)
    qed
  qed
  finally show ?case using 3 H by simp
qed auto

text \<open>
  Claim C9.  On two arrays of the shape of the manifold's elements, \<open>Stiefel.inner(X, G, H)\<close>
  is the Frobenius inner product of \<open>G\<close> and \<open>H\<close> over all entries and blocks; it is
  symmetric in \<open>G\<close> and \<open>H\<close> and does not depend on the point; \<open>norm\<close> is its square root.
\<close>

theorem Stiefel_inner_frobenius:
  assumes "has_shape (stiefel_shape self) G" "has_shape (stiefel_shape self) H"
  shows "Stiefel_inner X G H = frobenius G H
         \<and> Stiefel_inner X G H = Stiefel_inner X H G
         \<and> Stiefel_inner Y G H = Stiefel_inner X G H
         \<and> Stiefel_norm X G = sqrt (Stiefel_inner X G G)"
proof -
  have len: "2 \<le> length (stiefel_shape self)"
    by (simp add: stiefel_shape_def)
  have a: "Stiefel_inner X G H = frobenius G H"
    unfolding Stiefel_inner_def using assms len by (rule tensordot_all_frobenius)
  have "ndim G = ndim H" "2 \<le> ndim G"
    using assms len by (simp_all add: has_shape_ndim)
  then have b: "Stiefel_inner X G H = Stiefel_inner X H G"
    unfolding Stiefel_inner_def by (rule tensordot_all_commute)
  have c: "Stiefel_inner Y G H = Stiefel_inner X G H"
    by (simp add: Stiefel_inner_def)
  have d: "Stiefel_norm X G = sqrt (Stiefel_inner X G G)"
    by (simp add: Stiefel_norm_def linalg_norm_def Stiefel_inner_def)
  from a b c d show ?thesis by blast
qed


theorem Stiefel_inner_frobenius_witness:
  "\<exists>self. Stiefel_init 3 2 1 = Inr self
     \<and> has_shape (stiefel_shape self) (Arr2 [[1, 2], [3, 4], [5, 6]])
     \<and> has_shape (stiefel_shape self) (Arr2 [[1, 0], [0, 1], [1, 1]])
     \<and> Stiefel_inner (Arr2 [[1, 0], [0, 1], [0, 0]])
           (Arr2 [[1, 2], [3, 4], [5, 6]]) (Arr2 [[1, 0], [0, 1], [1, 1]]) = 16
     \<and> frobenius (Arr2 [[1, 2], [3, 4], [5, 6]]) (Arr2 [[1, 0], [0, 1], [1, 1]]) = 16
     \<and> Stiefel_inner (Arr2 [[0, 0], [1, 0], [0, 1]])
           (Arr2 [[1, 0], [0, 1], [1, 1]]) (Arr2 [[1, 2], [3, 4], [5, 6]]) = 16"
proof -
  let ?G = "Arr2 [[1, 2], [3, 4], [5, 6]]" and ?H = "Arr2 [[1, 0], [0, 1], [1, 1]]"
  let ?X = "Arr2 [[1, 0], [0, 1], [0, 0]]" and ?Y = "Arr2 [[0, 0], [1, 0], [0, 1]]"
  obtain self where self: "Stiefel_init 3 2 1 = Inr self"
    by (simp add: Stiefel_init_small)
  then have sh: "stiefel_shape self = [3, 2]"
    by (auto simp: Stiefel_init_small stiefel_shape_def)
  have G: "has_shape (stiefel_shape self) ?G" and H: "has_shape (stiefel_shape self) ?H"
    by (simp_all add: sh mat_def)
  have v: "Stiefel_inner ?X ?G ?H = 16"
    by (simp add: Stiefel_inner_def tensordot2_def dot_def)
  from Stiefel_inner_frobenius [OF G H, of ?X ?Y] Stiefel_inner_frobenius [OF H G, of ?Y ?X] v
  have "frobenius ?G ?H = 16" "Stiefel_inner ?Y ?H ?G = 16"
    by simp_all
  with self G H v show ?thesis by blast
qed

section \<open>The retraction of FixedRankEmbedded\<close>

lemma spacing_1_pos: "0 < spacing_1"
  by (simp add: spacing_1_def)

text \<open>
  Claim C4.  Every entry of the \<open>S\<close> component that \<open>FixedRankEmbedded.retr(X, Z)\<close> returns is
  strictly positive, indeed at least \<open>np.spacing(1)\<close>: the singular values that
  \<open>np.linalg.svd\<close> computes are not negative, and the spacing is added to each.
\<close>

theorem FixedRank_retr_singular_values_positive:
  assumes "\<And>T. list_all (\<lambda>s. 0 \<le> s) (fst (snd (svd T)))"
  shows "list_all (\<lambda>s. 0 < s \<and> spacing_1 \<le> s) (fst (snd (FixedRank_retr qr svd self X Z)))"
proof -
  obtain X0 X1 X2 where X: "X = (X0, X1, X2)" by (cases X)
  obtain Qu Ru where u: "qr (Up_of Z) = (Qu, Ru)" by (cases "qr (Up_of Z)")
  obtain Qv Rv where v: "qr (Vp_of Z) = (Qv, Rv)" by (cases "qr (Vp_of Z)")
  let ?k = "nat (fr_k self)"
  let ?T = "vstack (hstack (madd (diag_of_vec X1) (M_of Z)) (mT Rv)) (hstack Ru (zeros ?k ?k))"
  obtain Ut St Vt0 where s: "svd ?T = (Ut, St, Vt0)" by (cases "svd ?T")
  have S: "fst (snd (FixedRank_retr qr svd self X Z)) = map (\<lambda>s. s + spacing_1) (take ?k St)"
    by (simp add: X u v s Let_def)
  from assms[of ?T] s have "list_all (\<lambda>s. 0 \<le> s) St" by simp
  then have "\<forall>x \<in> set (take ?k St). 0 \<le> x"
    by (auto simp: list_all_iff dest: in_set_takeD)
  then show ?thesis
    using spacing_1_pos unfolding S by (auto simp: list_all_iff intro: add_nonneg_pos)
qed

theorem FixedRank_retr_singular_values_positive_witness:
  "\<exists>self. FixedRankEmbedded_init 2 2 1 = Inr self
     \<and> list_all (\<lambda>s. 0 < s \<and> spacing_1 \<le> s)
          (fst (snd (FixedRank_retr (\<lambda>A. ([[1], [0]], [[0]]))
                       (\<lambda>T. ([[1, 0], [0, 1]], [2, 0], [[1, 0], [0, 1]]))
                       self ([[1], [0]], [2], [[1, 0]])
                       (FixedRankTangentVector [[0], [0]] [[0]] [[0], [0]]))))
     \<and> FixedRank_retr (\<lambda>A. ([[1], [0]], [[0]]))
                       (\<lambda>T. ([[1, 0], [0, 1]], [2, 0], [[1, 0], [0, 1]]))
                       self ([[1], [0]], [2], [[1, 0]])
                       (FixedRankTangentVector [[0], [0]] [[0]] [[0], [0]])
         = ([[1], [0]], [2 + spacing_1], [[1, 0]])"
proof -
  let ?qr = "\<lambda>A::mat. ([[1], [0]], [[0]]) :: mat \<times> mat"
  let ?svd = "\<lambda>T::mat. ([[1, 0], [0, 1]], [2, 0], [[1, 0], [0, 1]]) :: mat \<times> vec \<times> mat"
  let ?X = "([[1], [0]], [2], [[1, 0]]) :: fr_point"
  let ?Z = "FixedRankTangentVector [[0], [0]] [[0]] [[0], [0]]"
  obtain self where self: "FixedRankEmbedded_init 2 2 1 = Inr self"
    by (simp add: init_eval)
  then have k: "fr_k self = 1"
    by (auto simp: init_eval)
  have nonneg: "\<And>T. list_all (\<lambda>s. 0 \<le> s) (fst (snd (?svd T)))"
    by simp
  have val: "FixedRank_retr ?qr ?svd self ?X ?Z = ([[1], [0]], [2 + spacing_1], [[1, 0]])"
    by (simp add: k Let_def first_cols_def hstack_def matmul_def mT_def ncols_def dot_def)
  from FixedRank_retr_singular_values_positive [of ?svd ?qr self ?X ?Z, OF nonneg] self val
  show ?thesis by blast
qed

section \<open>Random points of FixedRankEmbedded\<close>

text \<open>
  Claim C6.  The triple that \<open>FixedRankEmbedded(m, n, k).rand()\<close> returns is a point: \<open>U\<close> is
  \<open>m \<times> k\<close> with orthonormal columns, \<open>V\<close> is \<open>k \<times> n\<close> with orthonormal rows, and \<open>S\<close> has
  \<open>k\<close> entries, none negative, in descending order.  What is used of the library: the factor
  \<open>q\<close> of \<open>np.linalg.qr\<close> of an \<open>m \<times> k\<close> draw is \<open>m \<times> k\<close> with orthonormal columns, and
  \<open>np.random.rand(k)\<close> returns \<open>k\<close> numbers of the interval from 0 to 1.
\<close>

theorem FixedRank_rand_is_a_point:
  assumes init: "FixedRankEmbedded_init m n k = Inr self"
    and qm: "qr (randn_m 0) = (Qm, Rm)" "mat (nat m) (nat k) Qm" "matmul (mT Qm) Qm = eye (nat k)"
    and qn: "qr (randn_n 0) = (Qn, Rn)" "mat (nat n) (nat k) Qn" "matmul (mT Qn) Qn = eye (nat k)"
    and r: "length r = nat k" "list_all (\<lambda>x. 0 \<le> x \<and> x < 1) r"
  shows "\<exists>u s vt. FixedRank_rand qr randn_m r randn_n self = Inr (u, s, vt)
           \<and> mat (nat m) (nat k) u \<and> matmul (mT u) u = eye (nat k)
           \<and> mat (nat k) (nat n) vt \<and> matmul vt (mT vt) = eye (nat k)
           \<and> length s = nat k \<and> list_all (\<lambda>x. 0 \<le> x) s \<and> sorted_wrt (\<ge>) s"
proof -
  from FixedRankEmbedded_init_fields[OF init]
  have f: "1 \<le> k" "k \<le> m" "k \<le> n"
    and sm: "Stiefel_init m k 1 = Inr (fr_stiefel_m self)"
    and sn: "Stiefel_init n k 1 = Inr (fr_stiefel_n self)"
    by simp_all
  have km: "st_k (fr_stiefel_m self) = 1" and kn: "st_k (fr_stiefel_n self) = 1"
    using Stiefel_init_fields[OF sm] Stiefel_init_fields[OF sn] by simp_all
  have um: "Stiefel_rand qr randn_m (fr_stiefel_m self) = Inr (Arr2 Qm)"
    by (simp add: Stiefel_rand_def km qm(1))
  have un: "Stiefel_rand qr randn_n (fr_stiefel_n self) = Inr (Arr2 Qn)"
    by (simp add: Stiefel_rand_def kn qn(1))
  let ?s = "rev (sort r)"
  have res: "FixedRank_rand qr randn_m r randn_n self = Inr (Qm, ?s, mT Qn)"
    by (simp add: FixedRank_rand_def um un)
  have pos: "0 < nat n" "0 < nat k" using f by simp_all
  have vt: "mat (nat k) (nat n) (mT Qn)"
    using qn(2) pos(1) by (rule mT_mat)
  have "mT (mT Qn) = Qn"
    using qn(2) pos by (rule mT_mT)
  then have vv: "matmul (mT Qn) (mT (mT Qn)) = eye (nat k)"
    using qn(3) by simp
  have s1: "length ?s = nat k" using r(1) by simp
  have s2: "list_all (\<lambda>x. 0 \<le> x) ?s"
    using r(2) by (auto simp: list_all_iff)
  have s3: "sorted_wrt (\<ge>) ?s"
    by (simp add: sorted_wrt_rev)
  from res qm(2,3) vt vv s1 s2 s3 show ?thesis by blast
qed

theorem FixedRank_rand_is_a_point_witness:
  "\<exists>self. FixedRankEmbedded_init 2 2 1 = Inr self
     \<and> FixedRank_rand (\<lambda>A. ([[3 / 5], [4 / 5]], [[5]])) (\<lambda>i. [[3], [4]]) [1 / 2]
          (\<lambda>i. [[3], [4]]) self = Inr ([[3 / 5], [4 / 5]], [1 / 2], [[3 / 5, 4 / 5]])
     \<and> matmul (mT [[3 / 5], [4 / 5]]) [[3 / 5], [4 / 5]] = eye 1
     \<and> matmul [[3 / 5, 4 / 5]] (mT [[3 / 5, 4 / 5]]) = eye 1"
proof -
  let ?Q = "[[3 / 5], [4 / 5]] :: mat"
  let ?qr = "\<lambda>A::mat. (?Q, [[5]] :: mat)"
  let ?randn = "\<lambda>i::nat. [[3], [4]] :: mat"
  obtain self where self: "FixedRankEmbedded_init 2 2 1 = Inr self"
    by (simp add: init_eval)
  have q: "?qr (?randn 0) = (?Q, [[5]])" by simp
  have m: "mat (nat 2) (nat 1) ?Q" by (simp add: mat_def)
  have o: "matmul (mT ?Q) ?Q = eye (nat 1)"
    by (simp add: matmul_def mT_def ncols_def dot_def eye_def)
  have r: "length [1 / 2 :: real] = nat 1" "list_all (\<lambda>x. 0 \<le> x \<and> x < 1) [1 / 2 :: real]"
    by simp_all
  from FixedRank_rand_is_a_point
         [where qr = "?qr" and randn_m = "?randn" and randn_n = "?randn" and Qm = "?Q"
            and Qn = "?Q" and Rm = "[[5]]" and Rn = "[[5]]" and r = "[1 / 2]"
            and m = 2 and n = 2 and k = 1 and self = self, OF self refl m o refl m o r]
  obtain u s vt where res: "FixedRank_rand ?qr ?randn [1 / 2] ?randn self = Inr (u, s, vt)"
    and inv: "matmul (mT u) u = eye (nat 1)" "matmul vt (mT vt) = eye (nat 1)"
    by blast
  have km: "st_k (fr_stiefel_m self) = 1" and kn: "st_k (fr_stiefel_n self) = 1"
    using self by (auto simp: init_eval)
  have val: "FixedRank_rand ?qr ?randn [1 / 2] ?randn self = Inr (?Q, [1 / 2], [[3 / 5, 4 / 5]])"
    by (simp add: FixedRank_rand_def Stiefel_rand_def km kn mT_def ncols_def)
  from res val inv self show ?thesis by auto
qed

section \<open>Random tangent vectors of Product\<close>

lemma dot_smul: "dot (map ((*) c) u) (map ((*) c) v) = c * c * dot u v"
  by (induction u v rule: list_induct2') (auto simp: dot_def algebra_simps)

lemma tensordot2_smul: "tensordot2 (smul c A) (smul c B) = c * c * tensordot2 A B"
  by (induction A B rule: list_induct2')
     (auto simp: tensordot2_def smul_def dot_smul algebra_simps)

lemma tensordot_all_smul:
  "ndim G = ndim H \<Longrightarrow> 2 \<le> ndim G \<Longrightarrow>
   tensordot_all (nd_smul c G) (nd_smul c H) = c * c * tensordot_all G H"
proof (cases G; cases H)
  fix Gs Hs assume "G = Arr3 Gs" "H = Arr3 Hs"
  moreover have "sum_list (map2 tensordot2 (map (smul c) Gs) (map (smul c) Hs))
                 = c * c * sum_list (map2 tensordot2 Gs Hs)"
    by (induction Gs Hs rule: list_induct2') (auto simp: tensordot2_smul algebra_simps)
  ultimately show "tensordot_all (nd_smul c G) (nd_smul c H) = c * c * tensordot_all G H"
    by simp
qed (auto simp: tensordot2_smul)

lemma ndim_nd_sdiv: "2 \<le> ndim A \<Longrightarrow> ndim (nd_sdiv A c) = ndim A"
  by (cases A) auto

lemma ndim_Stiefel_proj: "ndim X = ndim U \<Longrightarrow> 2 \<le> ndim X \<Longrightarrow> ndim (Stiefel_proj X U) = ndim X"
  by (cases X; cases U) (auto simp: Stiefel_proj_def)

lemma man_inner_scaled:
  assumes "randvec_args m x d"
  shows "man_inner m x (scale_component c (man_randvec m d x)) (scale_component c (man_randvec m d x))
         = c * c * man_inner m x (man_randvec m d x) (man_randvec m d x)"
  using assms
proof (induction m x d rule: randvec_args.induct)
  case (1 s X U0)
  then have "ndim (Stiefel_randvec U0 X) = ndim X"
    by (simp add: Stiefel_randvec_def Let_def ndim_nd_sdiv ndim_Stiefel_proj)
  with 1 show ?case
    by (simp add: Stiefel_inner_def tensordot_all_smul)
next
  case (2 f X Up Vp M)
  show ?case
    by (simp add: FixedRank_inner_def tangent_mul_def tensordot2_smul algebra_simps)
qed auto

lemma man_norm_inner:
  assumes "randvec_args m x d" "man_norm m x (man_randvec m d x) = 1"
  shows "man_inner m x (man_randvec m d x) (man_randvec m d x) = 1"
  using assms
proof (induction m x d rule: randvec_args.induct)
  case (1 s X U0)
  then show ?case
    by (simp add: Stiefel_norm_def Stiefel_inner_def linalg_norm_def)
next
  case (2 f X Up Vp M)
  then show ?case
    by (simp add: FixedRank_norm_def)
qed auto

text \<open>
  Claim C7.  \<open>Product.randvec(X)\<close> multiplies the random tangent vector of each of its \<open>N\<close>
  factors by \<open>1 / sqrt(N)\<close>; if each factor's vector has norm 1 in the factor's metric, the
  result has norm 1 in the metric of the Product.
\<close>

theorem Product_randvec_unit_norm:
  assumes N: "1 \<le> length ms" and X: "length X = length ms"
    and args: "list_all (\<lambda>k. randvec_args (ms ! k) (X ! k) (draws k)) [0..<length ms]"
    and unit: "list_all (\<lambda>k. man_norm (ms ! k) (X ! k) (man_randvec (ms ! k) (draws k) (X ! k)) = 1)
                 [0..<length ms]"
  shows "Product_randvec draws ms X
           = Inr (map (\<lambda>k. scale_component (1 / sqrt (real (length ms)))
                              (man_randvec (ms ! k) (draws k) (X ! k))) [0..<length ms])
         \<and> Product_norm ms X
               (map (\<lambda>k. scale_component (1 / sqrt (real (length ms)))
                              (man_randvec (ms ! k) (draws k) (X ! k))) [0..<length ms])
             = Inr 1"
proof -
  let ?N = "length ms"
  let ?c = "1 / sqrt (real ?N)"
  let ?v = "\<lambda>k. man_randvec (ms ! k) (draws k) (X ! k)"
  let ?G = "map (\<lambda>k. scale_component ?c (?v k)) [0..<?N]"
  have en: "enumerate 0 ms = map (\<lambda>k. (k, ms ! k)) [0..<?N]"
    by (rule nth_equalityI) (auto simp: nth_enumerate_eq)
  have rv: "Product_randvec draws ms X = Inr ?G"
    using X by (simp add: Product_randvec_def Let_def en comp_def)
  have "Product_inner ms X ?G ?G
        = Inr (sum_list (map (\<lambda>k. man_inner (ms ! k) (X ! k) (?G ! k) (?G ! k)) [0..<?N]))"
    using X by (simp add: Product_inner_def en comp_def)
  also have "map (\<lambda>k. man_inner (ms ! k) (X ! k) (?G ! k) (?G ! k)) [0..<?N]
             = map (\<lambda>k. ?c * ?c) [0..<?N]"
  proof (rule map_cong[OF refl])
    fix k assume "k \<in> set [0..<?N]"
    then have k: "k < ?N" by simp
    then have a: "randvec_args (ms ! k) (X ! k) (draws k)"
      and u: "man_norm (ms ! k) (X ! k) (?v k) = 1"
      using args unit by (auto simp: list_all_iff)
    have "man_inner (ms ! k) (X ! k) (?G ! k) (?G ! k)
          = ?c * ?c * man_inner (ms ! k) (X ! k) (?v k) (?v k)"
      using k by (simp add: man_inner_scaled[OF a])
    also have "\<dots> = ?c * ?c"
      using man_norm_inner[OF a u] by simp
    finally show "man_inner (ms ! k) (X ! k) (?G ! k) (?G ! k) = ?c * ?c" .
  qed
  also have "sum_list (map (\<lambda>k. ?c * ?c) [0..<?N]) = real ?N * (?c * ?c)"
    by (simp add: sum_list_triv)
  also have "\<dots> = 1"
  proof -
    have "0 < ?N" using N by linarith
    then have "0 < real ?N" by simp
    then have "sqrt (real ?N) * sqrt (real ?N) = real ?N" "sqrt (real ?N) \<noteq> 0"
      by simp_all
    then show ?thesis by (simp add: field_simps)
  qed
  finally have "Product_inner ms X ?G ?G = Inr 1" .
  then have "Product_norm ms X ?G = Inr 1"
    by (simp add: Product_norm_def)
  with rv show ?thesis by simp
qed

theorem Product_randvec_unit_norm_witness:
  "\<exists>s. Stiefel_init 2 1 1 = Inr s
     \<and> Product_randvec (\<lambda>k. DrawStiefel (Arr2 [[0], [1]]))
          [MStiefel s, MStiefel s, MStiefel s, MStiefel s]
          [CArray (Arr2 [[1], [0]]), CArray (Arr2 [[1], [0]]),
           CArray (Arr2 [[1], [0]]), CArray (Arr2 [[1], [0]])]
        = Inr [CArray (Arr2 [[0], [1 / 2]]), CArray (Arr2 [[0], [1 / 2]]),
               CArray (Arr2 [[0], [1 / 2]]), CArray (Arr2 [[0], [1 / 2]])]
     \<and> Product_norm [MStiefel s, MStiefel s, MStiefel s, MStiefel s]
          [CArray (Arr2 [[1], [0]]), CArray (Arr2 [[1], [0]]),
           CArray (Arr2 [[1], [0]]), CArray (Arr2 [[1], [0]])]
          [CArray (Arr2 [[0], [1 / 2]]), CArray (Arr2 [[0], [1 / 2]]),
           CArray (Arr2 [[0], [1 / 2]]), CArray (Arr2 [[0], [1 / 2]])]
        = Inr 1"
proof -
  obtain s where s: "Stiefel_init 2 1 1 = Inr s"
    by (simp add: Stiefel_init_small)
  let ?ms = "[MStiefel s, MStiefel s, MStiefel s, MStiefel s]"
  let ?x = "CArray (Arr2 [[1], [0]])"
  let ?X = "[?x, ?x, ?x, ?x]"
  let ?d = "\<lambda>k::nat. DrawStiefel (Arr2 [[0], [1]])"
  have rv: "Stiefel_randvec (Arr2 [[0], [1]]) (Arr2 [[1], [0]]) = Arr2 [[0], [1]]"
    by (simp add: Stiefel_randvec_def Stiefel_proj_def sym_part_def matmul_def mT_def ncols_def
                  dot_def madd_def sdiv_def msub_def linalg_norm_def tensordot2_def Let_def)
  have upt4: "[0..<4] = [0, 1, 2, 3::nat]"
    by (simp add: upt_rec)
  have n: "1 \<le> length ?ms" and l: "length ?X = length ?ms"
    by simp_all
  have a: "list_all (\<lambda>k. randvec_args (?ms ! k) (?X ! k) (?d k)) [0..<length ?ms]"
    by (simp add: upt4)
  have u: "list_all (\<lambda>k. man_norm (?ms ! k) (?X ! k) (man_randvec (?ms ! k) (?d k) (?X ! k)) = 1)
             [0..<length ?ms]"
    by (simp add: upt4 rv Stiefel_norm_def linalg_norm_def tensordot2_def dot_def)
  from Product_randvec_unit_norm [of ?ms ?X ?d, OF n l a u] s
  show ?thesis
    by (simp add: upt4 rv smul_def)
qed

section \<open>Projection onto the tangent space\<close>

lemma hstack_mat: "mat r a A \<Longrightarrow> mat r b B \<Longrightarrow> mat r (a + b) (hstack A B)"
  by (rule matI) (auto simp: hstack_def mat_length mat_nth_length)

lemma hstack_nth_row: "mat r a A \<Longrightarrow> mat r b B \<Longrightarrow> i < r \<Longrightarrow> hstack A B ! i = A ! i @ B ! i"
  by (simp add: hstack_def mat_length)

lemma dot_append: "length u1 = length v1 \<Longrightarrow> dot (u1 @ u2) (v1 @ v2) = dot u1 v1 + dot u2 v2"
  by (simp add: dot_def)

lemma matmul_mT_nth:
  assumes "mat r n A" "mat c n B" "0 < n" "0 < c" "i < r" "j < c"
  shows "matmul A (mT B) ! i ! j = dot (A ! i) (B ! j)"
proof -
  have "mT (mT B) = B" using assms by (simp add: mT_mT)
  then show ?thesis using assms by (simp add: matmul_def mat_length)
qed

lemma hstack_matmul_mT:
  assumes A: "mat m a A" and B: "mat m b B" and C: "mat n a C" and D: "mat n b D"
    and pos: "0 < a" "0 < b" "0 < n"
  shows "matmul (hstack A B) (mT (hstack C D)) = madd (matmul A (mT C)) (matmul B (mT D))"
proof (rule mat_eqI[of m n])
  have AB: "mat m (a + b) (hstack A B)" using A B by (rule hstack_mat)
  have CD: "mat n (a + b) (hstack C D)" using C D by (rule hstack_mat)
  have CDt: "mat (a + b) n (mT (hstack C D))" using CD pos by (simp add: mT_mat)
  have Ct: "mat a n (mT C)" using C pos by (simp add: mT_mat)
  have Dt: "mat b n (mT D)" using D pos by (simp add: mT_mat)
  have ACt: "mat m n (matmul A (mT C))" using A Ct pos(1) by (rule matmul_mat)
  have BDt: "mat m n (matmul B (mT D))" using B Dt pos(2) by (rule matmul_mat)
  show "mat m n (matmul (hstack A B) (mT (hstack C D)))"
    using AB CDt pos by (simp add: matmul_mat)
  show "mat m n (madd (matmul A (mT C)) (matmul B (mT D)))"
    using ACt BDt by (rule madd_mat)
  fix i j assume ij: "i < m" "j < n"
  have "matmul (hstack A B) (mT (hstack C D)) ! i ! j = dot (hstack A B ! i) (hstack C D ! j)"
    using AB CD pos ij by (simp add: matmul_mT_nth)
  also have "\<dots> = dot (A ! i @ B ! i) (C ! j @ D ! j)"
    using A B C D ij by (simp add: hstack_nth_row)
  also have "\<dots> = dot (A ! i) (C ! j) + dot (B ! i) (D ! j)"
    using A C ij by (simp add: dot_append mat_nth_length)
  also have "\<dots> = matmul A (mT C) ! i ! j + matmul B (mT D) ! i ! j"
    using A B C D pos ij by (simp add: matmul_mT_nth)
  also have "\<dots> = madd (matmul A (mT C)) (matmul B (mT D)) ! i ! j"
    using ACt BDt ij by (simp add: madd_nth)
  finally show "matmul (hstack A B) (mT (hstack C D)) ! i ! j
                = madd (matmul A (mT C)) (matmul B (mT D)) ! i ! j" .
qed

text \<open>A factor triple with a symmetric middle factor acts as the dense matrix it factors.\<close>

lemma factors_as_dense:
  assumes Z0: "mat m r Z0" and Z1: "mat r r Z1" and sy: "mT Z1 = Z1" and Z2: "mat n r Z2"
    and pos: "0 < m" "0 < n" "0 < r"
  shows "FixedRank_proj X (Factors Z0 Z1 Z2)
         = FixedRank_proj X (Dense (matmul (matmul Z0 Z1) (mT Z2)))"
proof -
  have Z2t: "mat r n (mT Z2)" using Z2 pos by (simp add: mT_mat)
  have Z0t: "mat r m (mT Z0)" using Z0 pos by (simp add: mT_mat)
  have Z01: "mat m r (matmul Z0 Z1)" using Z0 Z1 pos(3) by (rule matmul_mat)
  have "mT (matmul (matmul Z0 Z1) (mT Z2)) = matmul (mT (mT Z2)) (mT (matmul Z0 Z1))"
    using Z01 Z2t pos by (simp add: mT_matmul)
  also have "mT (mT Z2) = Z2" using Z2 pos by (simp add: mT_mT)
  also have "mT (matmul Z0 Z1) = matmul (mT Z1) (mT Z0)"
    using Z0 Z1 pos by (simp add: mT_matmul)
  also have "matmul Z2 (matmul (mT Z1) (mT Z0)) = matmul (matmul Z2 Z1) (mT Z0)"
    using matmul_assoc[OF Z2 Z1 Z0t pos(3) pos(3)] sy by simp
  finally have t: "mT (matmul (matmul Z0 Z1) (mT Z2)) = matmul (matmul Z2 Z1) (mT Z0)" .
  obtain X0 X1 X2 where X: "X = (X0, X1, X2)" by (cases X)
  show ?thesis by (simp add: X t)
qed

lemma proj_dense_tangent:
  assumes U: "mat m k U" and Vt: "mat k n Vt" and Z: "mat m n Z"
    and pos: "0 < m" "0 < n" "0 < k"
    and oU: "matmul (mT U) U = eye k"
    and oV: "matmul Vt (mT Vt) = eye k"
  shows "mat m k (Up_of (FixedRank_proj (U, S, Vt) (Dense Z)))"
    and "mat k k (M_of (FixedRank_proj (U, S, Vt) (Dense Z)))"
    and "mat n k (Vp_of (FixedRank_proj (U, S, Vt) (Dense Z)))"
    and "matmul (mT U) (Up_of (FixedRank_proj (U, S, Vt) (Dense Z))) = zeros k k"
    and "matmul Vt (Vp_of (FixedRank_proj (U, S, Vt) (Dense Z))) = zeros k k"
proof -
  let ?V = "mT Vt"
  let ?ZV = "matmul Z ?V"
  let ?UtZV = "matmul (mT U) ?ZV"
  let ?ZtU = "matmul (mT Z) U"
  let ?Up = "msub ?ZV (matmul U ?UtZV)"
  let ?Vp = "msub ?ZtU (matmul ?V (mT ?UtZV))"
  have T: "FixedRank_proj (U, S, Vt) (Dense Z) = FixedRankTangentVector ?Up ?UtZV ?Vp"
    by (simp add: Let_def)
  have V: "mat n k ?V" using Vt pos(3) by (rule mT_mat)
  have Ut: "mat k m (mT U)" using U pos(1) by (rule mT_mat)
  have Zt: "mat n m (mT Z)" using Z pos(1) by (rule mT_mat)
  have ZV: "mat m k ?ZV" using Z V pos(2) by (rule matmul_mat)
  have UtZV: "mat k k ?UtZV" using Ut ZV pos(1) by (rule matmul_mat)
  have ZtU: "mat n k ?ZtU" using Zt U pos(1) by (rule matmul_mat)
  have UU: "mat m k (matmul U ?UtZV)" using U UtZV pos(3) by (rule matmul_mat)
  have UtZVt: "mat k k (mT ?UtZV)" using UtZV pos(3) by (rule mT_mat)
  have VW: "mat n k (matmul ?V (mT ?UtZV))" using V UtZVt pos(3) by (rule matmul_mat)
  show "mat m k (Up_of (FixedRank_proj (U, S, Vt) (Dense Z)))"
    unfolding T using ZV UU by (simp add: msub_mat)
  show "mat k k (M_of (FixedRank_proj (U, S, Vt) (Dense Z)))"
    unfolding T using UtZV by simp
  show "mat n k (Vp_of (FixedRank_proj (U, S, Vt) (Dense Z)))"
    unfolding T using ZtU VW by (simp add: msub_mat)
  have "matmul (mT U) ?Up = msub ?UtZV (matmul (mT U) (matmul U ?UtZV))"
    using Ut ZV UU pos(1) by (rule matmul_msub_right)
  also have "matmul (mT U) (matmul U ?UtZV) = matmul (matmul (mT U) U) ?UtZV"
    using matmul_assoc[OF Ut U UtZV pos(1) pos(3)] by simp
  also have "\<dots> = ?UtZV"
    unfolding oU using UtZV pos(3) by (rule matmul_eye_left)
  also have "msub ?UtZV ?UtZV = zeros k k"
    using UtZV by (rule msub_self)
  finally show "matmul (mT U) (Up_of (FixedRank_proj (U, S, Vt) (Dense Z))) = zeros k k"
    unfolding T by simp
  have VtZtU: "mat k k (matmul Vt ?ZtU)" using Vt ZtU pos(2) by (rule matmul_mat)
  have "mT ?UtZV = matmul (mT ?ZV) (mT (mT U))"
    using Ut ZV pos by (simp add: mT_matmul)
  also have "mT (mT U) = U" using U pos by (simp add: mT_mT)
  also have "mT ?ZV = matmul (mT ?V) (mT Z)"
    using Z V pos by (simp add: mT_matmul)
  also have "mT ?V = Vt" using Vt pos by (simp add: mT_mT)
  also have "matmul (matmul Vt (mT Z)) U = matmul Vt ?ZtU"
    using Vt Zt U pos(2) pos(1) by (rule matmul_assoc)
  finally have tr: "mT ?UtZV = matmul Vt ?ZtU" .
  have "matmul Vt ?Vp = msub (matmul Vt ?ZtU) (matmul Vt (matmul ?V (mT ?UtZV)))"
    using Vt ZtU VW pos(2) by (rule matmul_msub_right)
  also have "matmul Vt (matmul ?V (mT ?UtZV)) = matmul (matmul Vt ?V) (mT ?UtZV)"
    using matmul_assoc[OF Vt V UtZVt pos(2) pos(3)] by simp
  also have "\<dots> = mT ?UtZV"
    unfolding oV using UtZVt pos(3) by (rule matmul_eye_left)
  also have "msub (matmul Vt ?ZtU) (mT ?UtZV) = zeros k k"
    unfolding tr using VtZtU by (rule msub_self)
  finally show "matmul Vt (Vp_of (FixedRank_proj (U, S, Vt) (Dense Z))) = zeros k k"
    unfolding T by simp
qed

lemma proj_of_tangent_triple_is_zero:
  assumes U: "mat m k U" and Vt: "mat k n Vt"
    and Up: "mat m k Up" and M: "mat k k M" and Vp: "mat n k Vp"
    and pos: "0 < m" "0 < n" "0 < k"
    and tU: "matmul (mT U) Up = zeros k k"
    and tV: "matmul Vt Vp = zeros k k"
  shows "FixedRank_proj (U, S, Vt) (Factors Up M Vp)
         = FixedRankTangentVector (zeros m k) (zeros k k) (zeros n k)"
proof -
  let ?V = "mT Vt"
  have V: "mat n k ?V" using Vt pos(3) by (rule mT_mat)
  have Ut: "mat k m (mT U)" using U pos(1) by (rule mT_mat)
  have Vpt: "mat k n (mT Vp)" using Vp pos(2) by (rule mT_mat)
  have Upt: "mat k m (mT Up)" using Up pos(1) by (rule mT_mat)
  have UpM: "mat m k (matmul Up M)" using Up M pos(3) by (rule matmul_mat)
  have VpM: "mat n k (matmul Vp M)" using Vp M pos(3) by (rule matmul_mat)
  have "matmul (mT Vp) ?V = mT (matmul Vt Vp)"
    using Vt Vp pos by (simp add: mT_matmul)
  then have a: "matmul (mT Vp) ?V = zeros k k"
    using tV pos by (simp add: mT_zeros)
  have "matmul (mT Up) (mT (mT U)) = mT (matmul (mT U) Up)"
    using Ut Up pos by (simp add: mT_matmul)
  then have b: "matmul (mT Up) U = zeros k k"
    using tU U pos by (simp add: mT_zeros mT_mT)
  have "matmul (matmul (matmul Up M) (mT Vp)) ?V = matmul (matmul Up M) (matmul (mT Vp) ?V)"
    using UpM Vpt V pos(3) pos(2) by (rule matmul_assoc)
  then have ZV: "matmul (matmul (matmul Up M) (mT Vp)) ?V = zeros m k"
    using a UpM pos by (simp add: matmul_zeros_right)
  have "matmul (matmul (matmul Vp M) (mT Up)) U = matmul (matmul Vp M) (matmul (mT Up) U)"
    using VpM Upt U pos(3) pos(1) by (rule matmul_assoc)
  then have ZtU: "matmul (matmul (matmul Vp M) (mT Up)) U = zeros n k"
    using b VpM pos by (simp add: matmul_zeros_right)
  have UtZV: "matmul (mT U) (zeros m k) = zeros k k"
    using Ut pos by (simp add: matmul_zeros_right)
  have c: "matmul U (zeros k k) = zeros m k"
    using U pos by (simp add: matmul_zeros_right)
  have d: "matmul ?V (mT (zeros k k)) = zeros n k"
    using V pos by (simp add: mT_zeros matmul_zeros_right)
  show ?thesis
    by (simp add: Let_def ZV ZtU UtZV c d msub_self[OF zeros_mat])
qed

lemma proj_tangent2ambient:
  assumes U: "mat m k U" and Vt: "mat k n Vt"
    and Up: "mat m k Up" and M: "mat k k M" and Vp: "mat n k Vp"
    and pos: "0 < m" "0 < n" "0 < k"
    and oU: "matmul (mT U) U = eye k"
    and oV: "matmul Vt (mT Vt) = eye k"
    and tU: "matmul (mT U) Up = zeros k k"
    and tV: "matmul Vt Vp = zeros k k"
    and k: "nat (fr_k self) = k"
  shows "FixedRank_proj (U, S, Vt)
           (FixedRank_tangent2ambient self (U, S, Vt) (FixedRankTangentVector Up M Vp))
         = FixedRankTangentVector Up M Vp"
proof -
  let ?V = "mT Vt"
  let ?A = "madd (matmul U M) Up"
  let ?Z = "madd (matmul ?A Vt) (matmul U (mT Vp))"
  have V: "mat n k ?V" using Vt pos(3) by (rule mT_mat)
  have VT: "mT ?V = Vt" using Vt pos by (simp add: mT_mT)
  have Ut: "mat k m (mT U)" using U pos(1) by (rule mT_mat)
  have Vpt: "mat k n (mT Vp)" using Vp pos(2) by (rule mT_mat)
  have UM: "mat m k (matmul U M)" using U M pos(3) by (rule matmul_mat)
  have A: "mat m k ?A" using UM Up by (rule madd_mat)
  have AVt: "mat m n (matmul ?A Vt)" using A Vt pos(3) by (rule matmul_mat)
  have UVpt: "mat m n (matmul U (mT Vp))" using U Vpt pos(3) by (rule matmul_mat)
  have Z: "mat m n ?Z" using AVt UVpt by (rule madd_mat)
  have hU: "mat m (k + k) (hstack ?A U)" using A U by (rule hstack_mat)
  have hV: "mat n (k + k) (hstack ?V Vp)" using V Vp by (rule hstack_mat)
  have kk: "2 * k = k + k" "0 < k + k" using pos by simp_all
  have e: "mat (k + k) (k + k) (eye (k + k))" "mT (eye (k + k)) = eye (k + k)"
    using kk by (simp_all add: eye_mat mT_eye)
  have t2a: "FixedRank_tangent2ambient self (U, S, Vt) (FixedRankTangentVector Up M Vp)
             = Factors (hstack ?A U) (eye (k + k)) (hstack ?V Vp)"
    by (simp add: Let_def k kk)
  have "matmul (matmul (hstack ?A U) (eye (k + k))) (mT (hstack ?V Vp))
        = matmul (hstack ?A U) (mT (hstack ?V Vp))"
    using hU kk by (simp add: matmul_eye_right)
  also have "\<dots> = madd (matmul ?A (mT ?V)) (matmul U (mT Vp))"
    using A U V Vp pos(3) pos(3) pos(2) by (rule hstack_matmul_mT)
  finally have dense: "matmul (matmul (hstack ?A U) (eye (k + k))) (mT (hstack ?V Vp)) = ?Z"
    by (simp add: VT)
  have step1: "FixedRank_proj (U, S, Vt)
                 (FixedRank_tangent2ambient self (U, S, Vt) (FixedRankTangentVector Up M Vp))
               = FixedRank_proj (U, S, Vt) (Dense ?Z)"
    unfolding t2a using factors_as_dense[OF hU e hV pos(1) pos(2) kk(2), of "(U, S, Vt)"]
    by (simp only: dense)
  \<comment> \<open>\<open>Z V = U M + Up\<close>\<close>
  have VpV: "matmul (mT Vp) ?V = zeros k k"
  proof -
    have "matmul (mT Vp) ?V = mT (matmul Vt Vp)"
      using Vt Vp pos by (simp add: mT_matmul)
    then show ?thesis using tV pos by (simp add: mT_zeros)
  qed
  have "matmul ?Z ?V = madd (matmul (matmul ?A Vt) ?V) (matmul (matmul U (mT Vp)) ?V)"
    using AVt UVpt V pos(2) by (rule matmul_madd_left)
  also have "matmul (matmul ?A Vt) ?V = matmul ?A (matmul Vt ?V)"
    using A Vt V pos(3) pos(2) by (rule matmul_assoc)
  also have "\<dots> = ?A"
    unfolding oV using A pos(3) by (rule matmul_eye_right)
  also have "matmul (matmul U (mT Vp)) ?V = matmul U (matmul (mT Vp) ?V)"
    using U Vpt V pos(3) pos(2) by (rule matmul_assoc)
  also have "\<dots> = zeros m k"
    unfolding VpV using U pos(3) by (rule matmul_zeros_right)
  also have "madd ?A (zeros m k) = ?A"
    using A by (rule madd_zeros_right)
  finally have ZV: "matmul ?Z ?V = ?A" .
  \<comment> \<open>\<open>U\<^sup>T Z V = M\<close>\<close>
  have "matmul (mT U) ?A = madd (matmul (mT U) (matmul U M)) (matmul (mT U) Up)"
    using Ut UM Up pos(1) by (rule matmul_madd_right)
  also have "matmul (mT U) (matmul U M) = matmul (matmul (mT U) U) M"
    using matmul_assoc[OF Ut U M pos(1) pos(3)] by simp
  also have "\<dots> = M"
    unfolding oU using M pos(3) by (rule matmul_eye_left)
  also have "madd M (matmul (mT U) Up) = M"
    unfolding tU using M by (rule madd_zeros_right)
  finally have UtZV: "matmul (mT U) ?A = M" .
  have Up': "msub ?A (matmul U M) = Up"
  proof -
    have "msub (madd (matmul U M) Up) (matmul U M) = Up"
      using UM Up by (rule madd_msub_cancel)
    then show ?thesis .
  qed
  \<comment> \<open>\<open>Z\<^sup>T U = V M\<^sup>T + Vp\<close>\<close>
  have Mt: "mat k k (mT M)" using M pos(3) by (rule mT_mat)
  have VMt: "mat n k (matmul ?V (mT M))" using V Mt pos(3) by (rule matmul_mat)
  have UtA: "mat k k (matmul (mT U) ?A)" using Ut A pos(1) by (rule matmul_mat)
  have MVt: "mat k n (matmul M Vt)" using M Vt pos(3) by (rule matmul_mat)
  have "matmul (mT U) ?Z = madd (matmul (mT U) (matmul ?A Vt)) (matmul (mT U) (matmul U (mT Vp)))"
    using Ut AVt UVpt pos(1) by (rule matmul_madd_right)
  also have "matmul (mT U) (matmul ?A Vt) = matmul (matmul (mT U) ?A) Vt"
    using matmul_assoc[OF Ut A Vt pos(1) pos(3)] by simp
  also have "\<dots> = matmul M Vt"
    by (simp only: UtZV)
  also have "matmul (mT U) (matmul U (mT Vp)) = matmul (matmul (mT U) U) (mT Vp)"
    using matmul_assoc[OF Ut U Vpt pos(1) pos(3)] by simp
  also have "\<dots> = mT Vp"
    unfolding oU using Vpt pos(3) by (rule matmul_eye_left)
  finally have UtZ: "matmul (mT U) ?Z = madd (matmul M Vt) (mT Vp)" .
  have "matmul (mT ?Z) U = matmul (mT ?Z) (mT (mT U))"
    using U pos by (simp add: mT_mT)
  also have "\<dots> = mT (matmul (mT U) ?Z)"
    using Ut Z pos by (simp add: mT_matmul)
  also have "\<dots> = mT (madd (matmul M Vt) (mT Vp))"
    by (simp only: UtZ)
  also have "\<dots> = madd (mT (matmul M Vt)) (mT (mT Vp))"
    using MVt Vpt pos(3) by (rule mT_madd)
  also have "mT (matmul M Vt) = matmul ?V (mT M)"
    using M Vt pos by (simp add: mT_matmul)
  also have "mT (mT Vp) = Vp"
    using Vp pos by (simp add: mT_mT)
  finally have ZtU: "matmul (mT ?Z) U = madd (matmul ?V (mT M)) Vp" .
  have Vp': "msub (madd (matmul ?V (mT M)) Vp) (matmul ?V (mT M)) = Vp"
    using VMt Vp by (rule madd_msub_cancel)
  have "FixedRank_proj (U, S, Vt) (Dense ?Z) = FixedRankTangentVector Up M Vp"
    by (simp add: Let_def ZV UtZV ZtU Up' Vp')
  with step1 show ?thesis by simp
qed

lemma valid_stiefel_pos:
  "valid_stiefel s \<Longrightarrow> 0 < nat (st_n s) \<and> 0 < nat (st_p s) \<and> 1 \<le> st_k s"
  by (auto simp: valid_stiefel_def dest!: Stiefel_init_fields)

lemma map2_proj_blocks:
  "length Xs = length Us \<Longrightarrow>
   map2 msub Us (map2 matmul Xs (map sym_part (map2 matmul (map mT Xs) Us)))
   = map2 (\<lambda>X U. msub U (matmul X (sym_part (matmul (mT X) U)))) Xs Us"
  by (induction Xs Us rule: list_induct2) auto

lemma map2_proj_blocks_idem:
  assumes "length Xs = length Us" "list_all (mat n p) Xs" "list_all (mat n p) Us"
    "list_all (orthonormal_columns p) Xs" "0 < n" "0 < p"
  shows "map2 (\<lambda>X U. msub U (matmul X (sym_part (matmul (mT X) U)))) Xs
           (map2 (\<lambda>X U. msub U (matmul X (sym_part (matmul (mT X) U)))) Xs Us)
         = map2 (\<lambda>X U. msub U (matmul X (sym_part (matmul (mT X) U)))) Xs Us"
  using assms
proof (induction Xs Us rule: list_induct2)
  case Nil
  then show ?case by simp
next
  case (Cons X Xs U Us)
  then have "mat n p X" "mat n p U" "matmul (mT X) X = eye p"
    by (simp_all add: orthonormal_columns_def)
  from proj_block_idem[OF this(1) this(2) Cons.prems(4) Cons.prems(5) this(3)] Cons
  show ?case by simp
qed

lemma Stiefel_proj_idempotent:
  assumes v: "valid_stiefel s" and X: "stiefel_point s X" and U: "has_shape (stiefel_shape s) U"
  shows "Stiefel_proj X (Stiefel_proj X U) = Stiefel_proj X U"
proof (cases "st_k s = 1")
  case True
  from valid_stiefel_pos[OF v] have pos: "0 < nat (st_n s)" "0 < nat (st_p s)" by simp_all
  from X True obtain A where A: "X = Arr2 A" "mat (nat (st_n s)) (nat (st_p s)) A"
      "matmul (mT A) A = eye (nat (st_p s))"
    by (cases X) (auto simp: stiefel_point_def stiefel_shape_def orthonormal_columns_def)
  from U True obtain B where B: "U = Arr2 B" "mat (nat (st_n s)) (nat (st_p s)) B"
    by (cases U) (auto simp: stiefel_shape_def)
  show ?thesis
    using proj_block_idem[OF A(2) B(2) pos A(3)] by (simp add: A(1) B(1) Stiefel_proj_def)
next
  case False
  from valid_stiefel_pos[OF v] have pos: "0 < nat (st_n s)" "0 < nat (st_p s)" by simp_all
  from X False obtain As where A: "X = Arr3 As" "length As = nat (st_k s)"
      "list_all (mat (nat (st_n s)) (nat (st_p s))) As"
      "list_all (orthonormal_columns (nat (st_p s))) As"
    by (cases X) (auto simp: stiefel_point_def stiefel_shape_def)
  from U False obtain Bs where B: "U = Arr3 Bs" "length Bs = nat (st_k s)"
      "list_all (mat (nat (st_n s)) (nat (st_p s))) Bs"
    by (cases U) (auto simp: stiefel_shape_def)
  let ?pb = "\<lambda>X U. msub U (matmul X (sym_part (matmul (mT X) U)))"
  have len: "length As = length Bs" using A B by simp
  have p1: "Stiefel_proj (Arr3 As) (Arr3 Bs) = Arr3 (map2 ?pb As Bs)"
    using map2_proj_blocks[OF len] by (simp add: Stiefel_proj_def)
  have len2: "length As = length (map2 ?pb As Bs)" using len by simp
  have p2: "Stiefel_proj (Arr3 As) (Arr3 (map2 ?pb As Bs)) = Arr3 (map2 ?pb As (map2 ?pb As Bs))"
    using map2_proj_blocks[OF len2] by (simp add: Stiefel_proj_def)
  show ?thesis
    unfolding A(1) B(1) p1 p2
    using map2_proj_blocks_idem[OF len A(3) B(3) A(4) pos] by simp
qed

lemma Product_proj_idempotent:
  assumes X: "length X = length ms" and U: "length U = length ms"
    and args: "list_all (\<lambda>k. stiefel_proj_args (ms ! k) (X ! k) (U ! k)) [0..<length ms]"
  shows "Product_proj ms X U
           = Inr (map (\<lambda>k. man_proj (ms ! k) (X ! k) (U ! k)) [0..<length ms])
         \<and> Product_proj ms X (map (\<lambda>k. man_proj (ms ! k) (X ! k) (U ! k)) [0..<length ms])
           = Inr (map (\<lambda>k. man_proj (ms ! k) (X ! k) (U ! k)) [0..<length ms])"
proof -
  let ?N = "length ms"
  let ?T = "map (\<lambda>k. man_proj (ms ! k) (X ! k) (U ! k)) [0..<?N]"
  have en: "enumerate 0 ms = map (\<lambda>k. (k, ms ! k)) [0..<?N]"
    by (rule nth_equalityI) (auto simp: nth_enumerate_eq)
  have one: "Product_proj ms X U = Inr ?T"
    using X U by (simp add: Product_proj_def en comp_def)
  have "map (\<lambda>k. man_proj (ms ! k) (X ! k) (?T ! k)) [0..<?N] = ?T"
  proof (rule map_cong[OF refl])
    fix k assume "k \<in> set [0..<?N]"
    then have k: "k < ?N" by simp
    then have a: "stiefel_proj_args (ms ! k) (X ! k) (U ! k)"
      using args by (auto simp: list_all_iff)
    then obtain s A B where f: "ms ! k = MStiefel s" "X ! k = CArray A" "U ! k = CArray B"
      by (cases "(ms ! k, X ! k, U ! k)" rule: stiefel_proj_args.cases) auto
    with a have "valid_stiefel s" "stiefel_point s A" "has_shape (stiefel_shape s) B"
      by simp_all
    then have "Stiefel_proj A (Stiefel_proj A B) = Stiefel_proj A B"
      by (rule Stiefel_proj_idempotent)
    then show "man_proj (ms ! k) (X ! k) (?T ! k) = man_proj (ms ! k) (X ! k) (U ! k)"
      using k f by simp
  qed
  then have two: "Product_proj ms X ?T = Inr ?T"
    using X by (simp add: Product_proj_def en comp_def)
  from one two show ?thesis by simp
qed

lemma valid_fixed_rank_pos:
  "valid_fixed_rank f \<Longrightarrow> 0 < nat (fr_m f) \<and> 0 < nat (fr_n f) \<and> 0 < nat (fr_k f)"
  unfolding valid_fixed_rank_def
  by (drule FixedRankEmbedded_init_fields) auto

lemma FixedRank_proj_amended:
  assumes v: "valid_fixed_rank f" and P: "fixed_rank_point f P" and Z: "ambient_vector f Z"
  shows "tangent_at f P (FixedRank_proj P Z)
         \<and> FixedRank_proj P (FixedRank_tangent2ambient f P (FixedRank_proj P Z)) = FixedRank_proj P Z
         \<and> FixedRank_proj P (as_tuple (FixedRank_proj P Z)) = FixedRank_zerovec f P"
proof -
  let ?m = "nat (fr_m f)" and ?n = "nat (fr_n f)" and ?k = "nat (fr_k f)"
  from valid_fixed_rank_pos[OF v] have pos: "0 < ?m" "0 < ?n" "0 < ?k" by simp_all
  obtain U S Vt where Pd: "P = (U, S, Vt)" by (cases P)
  from P have U: "mat ?m ?k U" and Vt: "mat ?k ?n Vt"
    and oU: "matmul (mT U) U = eye ?k" and oV: "matmul Vt (mT Vt) = eye ?k"
    by (simp_all add: Pd orthonormal_columns_def)
  obtain D where D: "mat ?m ?n D" "FixedRank_proj P Z = FixedRank_proj P (Dense D)"
  proof (cases Z)
    case (Dense D)
    with Z show ?thesis by (intro that[of D]) simp_all
  next
    case (Factors Z0 Z1 Z2)
    let ?r = "ncols Z0"
    from Z Factors have r: "0 < ?r" and Z0: "mat ?m ?r Z0" and Z1: "mat ?r ?r Z1"
      and sy: "mT Z1 = Z1" and Z2: "mat ?n ?r Z2"
      by simp_all
    have "mat ?m ?r (matmul Z0 Z1)" using Z0 Z1 r by (rule matmul_mat)
    moreover have "mat ?r ?n (mT Z2)" using Z2 pos(2) by (rule mT_mat)
    ultimately have "mat ?m ?n (matmul (matmul Z0 Z1) (mT Z2))" using r by (rule matmul_mat)
    moreover have "FixedRank_proj P Z = FixedRank_proj P (Dense (matmul (matmul Z0 Z1) (mT Z2)))"
      unfolding Factors using Z0 Z1 sy Z2 pos(1) pos(2) r by (rule factors_as_dense)
    ultimately show ?thesis by (rule that)
  qed
  let ?T = "FixedRank_proj (U, S, Vt) (Dense D)"
  note t = proj_dense_tangent[OF U Vt D(1) pos oU oV, of S]
  have D2: "FixedRank_proj (U, S, Vt) Z = ?T"
    using D(2) by (simp only: Pd)
  have T: "?T = FixedRankTangentVector (Up_of ?T) (M_of ?T) (Vp_of ?T)"
    by (simp only: fr_tangent.collapse)
  have "tangent_at f (U, S, Vt) ?T"
    using t by (simp only: tangent_at.simps simp_thms)
  then have a: "tangent_at f P (FixedRank_proj P Z)"
    by (simp only: Pd D2)
  have "FixedRank_proj (U, S, Vt)
          (FixedRank_tangent2ambient f (U, S, Vt)
             (FixedRankTangentVector (Up_of ?T) (M_of ?T) (Vp_of ?T)))
        = FixedRankTangentVector (Up_of ?T) (M_of ?T) (Vp_of ?T)"
    using U Vt t(1) t(2) t(3) pos oU oV t(4) t(5) refl by (rule proj_tangent2ambient)
  then have "FixedRank_proj (U, S, Vt) (FixedRank_tangent2ambient f (U, S, Vt) ?T) = ?T"
    by (simp only: fr_tangent.collapse)
  then have b: "FixedRank_proj P (FixedRank_tangent2ambient f P (FixedRank_proj P Z))
                = FixedRank_proj P Z"
    by (simp only: Pd D2)
  have "FixedRank_proj (U, S, Vt) (Factors (Up_of ?T) (M_of ?T) (Vp_of ?T))
        = FixedRankTangentVector (zeros ?m ?k) (zeros ?k ?k) (zeros ?n ?k)"
    using U Vt t(1) t(2) t(3) pos t(4) t(5) by (rule proj_of_tangent_triple_is_zero)
  then have "FixedRank_proj (U, S, Vt) (as_tuple ?T) = FixedRank_zerovec f (U, S, Vt)"
    by (simp only: as_tuple_def FixedRank_zerovec_def)
  then have c: "FixedRank_proj P (as_tuple (FixedRank_proj P Z)) = FixedRank_zerovec f P"
    by (simp only: Pd D2)
  from a b c show ?thesis by blast
qed

text \<open>
  Claim C1, as the code has it.  For Stiefel (one block or \<open>k\<close> blocks) and for a Product of
  Stiefel factors, projecting twice at a point is projecting once.  For FixedRankEmbedded, at
  a point and for an ambient vector that is a dense \<open>m \<times> n\<close> matrix or a factor triple with a
  symmetric middle factor, the result of \<open>proj\<close> is a tangent vector at the point and
  projecting its ambient form \<open>tangent2ambient(X, proj(X, Z))\<close> returns it; \<open>proj\<close> reads a
  tangent triple \<open>(Up, M, Vp)\<close> that is passed to it directly as the factors of
  \<open>Up M Vp\<^sup>T\<close>, and the result is the zero tangent vector.
\<close>

theorem proj_idempotent_amended:
  "(valid_stiefel s \<and> stiefel_point s X \<and> has_shape (stiefel_shape s) U \<longrightarrow>
      Stiefel_proj X (Stiefel_proj X U) = Stiefel_proj X U)
   \<and> (length Xs = length ms \<and> length Us = length ms
        \<and> list_all (\<lambda>k. stiefel_proj_args (ms ! k) (Xs ! k) (Us ! k)) [0..<length ms] \<longrightarrow>
      (\<exists>T. Product_proj ms Xs Us = Inr T \<and> Product_proj ms Xs T = Inr T))
   \<and> (valid_fixed_rank f \<and> fixed_rank_point f P \<and> ambient_vector f Z \<longrightarrow>
      tangent_at f P (FixedRank_proj P Z)
      \<and> FixedRank_proj P (FixedRank_tangent2ambient f P (FixedRank_proj P Z)) = FixedRank_proj P Z
      \<and> FixedRank_proj P (as_tuple (FixedRank_proj P Z)) = FixedRank_zerovec f P)"
proof (intro conjI impI)
  assume "valid_stiefel s \<and> stiefel_point s X \<and> has_shape (stiefel_shape s) U"
  then show "Stiefel_proj X (Stiefel_proj X U) = Stiefel_proj X U"
    using Stiefel_proj_idempotent[of s X U] by blast
next
  assume a: "length Xs = length ms \<and> length Us = length ms
        \<and> list_all (\<lambda>k. stiefel_proj_args (ms ! k) (Xs ! k) (Us ! k)) [0..<length ms]"
  then show "\<exists>T. Product_proj ms Xs Us = Inr T \<and> Product_proj ms Xs T = Inr T"
    using Product_proj_idempotent[of Xs ms Us] by blast
next
  assume a: "valid_fixed_rank f \<and> fixed_rank_point f P \<and> ambient_vector f Z"
  then have *: "tangent_at f P (FixedRank_proj P Z)
         \<and> FixedRank_proj P (FixedRank_tangent2ambient f P (FixedRank_proj P Z)) = FixedRank_proj P Z
         \<and> FixedRank_proj P (as_tuple (FixedRank_proj P Z)) = FixedRank_zerovec f P"
    using FixedRank_proj_amended[of f P Z] by blast
  from * show "tangent_at f P (FixedRank_proj P Z)" by blast
  from * show "FixedRank_proj P (FixedRank_tangent2ambient f P (FixedRank_proj P Z)) = FixedRank_proj P Z"
    by blast
  from * show "FixedRank_proj P (as_tuple (FixedRank_proj P Z)) = FixedRank_zerovec f P" by blast
qed

text \<open>
  Claim C1 as stated fails for FixedRankEmbedded: at the point \<open>U = (1, 0)\<^sup>T\<close>, \<open>S = (1)\<close>,
  \<open>V = (1, 0)\<close> of the manifold of \<open>2 \<times> 2\<close> matrices of rank 1, the projection of
  \<open>Z = ((1, 2), (3, 4))\<close> is not zero, and feeding it back into \<open>proj\<close> gives zero.
\<close>

theorem proj_idempotent_counterexample:
  "mat 2 1 [[1], [0]] \<and> orthonormal_columns 1 [[1], [0]]
   \<and> mat 1 2 [[1, 0]] \<and> matmul [[1, 0]] (mT [[1, 0]]) = eye 1
   \<and> FixedRank_proj ([[1], [0]], [1], [[1, 0]]) (Dense [[1, 2], [3, 4]])
       = FixedRankTangentVector [[0], [3]] [[1]] [[0], [2]]
   \<and> FixedRank_proj ([[1], [0]], [1], [[1, 0]])
         (as_tuple (FixedRank_proj ([[1], [0]], [1], [[1, 0]]) (Dense [[1, 2], [3, 4]])))
       = FixedRankTangentVector [[0], [0]] [[0]] [[0], [0]]
   \<and> FixedRank_proj ([[1], [0]], [1], [[1, 0]])
         (as_tuple (FixedRank_proj ([[1], [0]], [1], [[1, 0]]) (Dense [[1, 2], [3, 4]])))
       \<noteq> FixedRank_proj ([[1], [0]], [1], [[1, 0]]) (Dense [[1, 2], [3, 4]])"
  by (simp add: mat_def orthonormal_columns_def as_tuple_def Let_def matmul_def mT_def ncols_def
                dot_def eye_def msub_def)

theorem proj_idempotent_amended_witness:
  "\<exists>s f. Stiefel_init 2 1 1 = Inr s \<and> FixedRankEmbedded_init 2 2 1 = Inr f
     \<and> valid_stiefel s \<and> stiefel_point s (Arr2 [[1], [0]])
     \<and> has_shape (stiefel_shape s) (Arr2 [[3], [4]])
     \<and> Stiefel_proj (Arr2 [[1], [0]]) (Arr2 [[3], [4]]) = Arr2 [[0], [4]]
     \<and> Stiefel_proj (Arr2 [[1], [0]]) (Arr2 [[0], [4]]) = Arr2 [[0], [4]]
     \<and> Product_proj [MStiefel s] [CArray (Arr2 [[1], [0]])] [CArray (Arr2 [[3], [4]])]
         = Inr [CArray (Arr2 [[0], [4]])]
     \<and> Product_proj [MStiefel s] [CArray (Arr2 [[1], [0]])] [CArray (Arr2 [[0], [4]])]
         = Inr [CArray (Arr2 [[0], [4]])]
     \<and> valid_fixed_rank f \<and> fixed_rank_point f ([[1], [0]], [1], [[1, 0]])
     \<and> ambient_vector f (Dense [[1, 2], [3, 4]])
     \<and> FixedRank_proj ([[1], [0]], [1], [[1, 0]]) (Dense [[1, 2], [3, 4]])
         = FixedRankTangentVector [[0], [3]] [[1]] [[0], [2]]
     \<and> tangent_at f ([[1], [0]], [1], [[1, 0]]) (FixedRankTangentVector [[0], [3]] [[1]] [[0], [2]])
     \<and> FixedRank_proj ([[1], [0]], [1], [[1, 0]])
          (FixedRank_tangent2ambient f ([[1], [0]], [1], [[1, 0]])
             (FixedRankTangentVector [[0], [3]] [[1]] [[0], [2]]))
         = FixedRankTangentVector [[0], [3]] [[1]] [[0], [2]]
     \<and> FixedRank_proj ([[1], [0]], [1], [[1, 0]])
          (as_tuple (FixedRankTangentVector [[0], [3]] [[1]] [[0], [2]]))
         = FixedRank_zerovec f ([[1], [0]], [1], [[1, 0]])"
proof -
  let ?X = "Arr2 [[1], [0]]" and ?U = "Arr2 [[3], [4]]"
  let ?P = "([[1], [0]], [1], [[1, 0]]) :: fr_point"
  let ?Z = "Dense [[1, 2], [3, 4]]"
  let ?T = "FixedRankTangentVector [[0], [3]] [[1]] [[0], [2]]"
  obtain s where s: "Stiefel_init 2 1 1 = Inr s"
    by (simp add: Stiefel_init_small)
  obtain f where f: "FixedRankEmbedded_init 2 2 1 = Inr f"
    by (simp add: init_eval)
  from Stiefel_init_fields[OF s] have sf: "st_n s = 2" "st_p s = 1" "st_k s = 1" by simp_all
  from FixedRankEmbedded_init_fields[OF f] have ff: "fr_m f = 2" "fr_n f = 2" "fr_k f = 1"
    by simp_all
  have vs: "valid_stiefel s" using s by (simp add: valid_stiefel_def sf)
  have vf: "valid_fixed_rank f" using f by (simp add: valid_fixed_rank_def ff)
  have ev: "matmul (mT [[1], [0]]) [[1], [0]] = eye 1" "matmul [[1, 0]] (mT [[1, 0]]) = eye 1"
    by (simp_all add: matmul_def mT_def ncols_def dot_def eye_def)
  have pt: "stiefel_point s ?X"
    by (simp add: stiefel_point_def stiefel_shape_def sf mat_def orthonormal_columns_def ev)
  have sh: "has_shape (stiefel_shape s) ?U"
    by (simp add: stiefel_shape_def sf mat_def)
  have p1: "Stiefel_proj ?X ?U = Arr2 [[0], [4]]"
    by (simp add: Stiefel_proj_def sym_part_def matmul_def mT_def ncols_def dot_def madd_def
                  sdiv_def msub_def)
  have fp: "fixed_rank_point f ?P"
    by (simp add: ff mat_def orthonormal_columns_def ev)
  have av: "ambient_vector f ?Z"
    by (simp add: ff mat_def)
  have pz: "FixedRank_proj ?P ?Z = ?T"
    by (simp add: Let_def matmul_def mT_def ncols_def dot_def msub_def)
  have args: "length [CArray ?X] = length [MStiefel s] \<and> length [CArray ?U] = length [MStiefel s]
     \<and> list_all (\<lambda>k. stiefel_proj_args ([MStiefel s] ! k) ([CArray ?X] ! k) ([CArray ?U] ! k))
          [0..<length [MStiefel s]]"
    using vs pt sh by simp
  have pp: "Product_proj [MStiefel s] [CArray ?X] [CArray ?U] = Inr [CArray (Arr2 [[0], [4]])]"
    by (simp add: Product_proj_def enumerate_eq_zip p1)
  note inst = proj_idempotent_amended [of s ?X ?U "[CArray ?X]" "[MStiefel s]" "[CArray ?U]" f ?P ?Z]
  from inst vs pt sh have a: "Stiefel_proj ?X (Arr2 [[0], [4]]) = Arr2 [[0], [4]]"
    by (simp only: p1 simp_thms)
  from inst args have "\<exists>T. Product_proj [MStiefel s] [CArray ?X] [CArray ?U] = Inr T
                        \<and> Product_proj [MStiefel s] [CArray ?X] T = Inr T"
    by blast
  then have b: "Product_proj [MStiefel s] [CArray ?X] [CArray (Arr2 [[0], [4]])]
                = Inr [CArray (Arr2 [[0], [4]])]"
    by (auto simp: pp)
  from inst vf fp av have c: "tangent_at f ?P ?T"
    "FixedRank_proj ?P (FixedRank_tangent2ambient f ?P ?T) = ?T"
    "FixedRank_proj ?P (as_tuple ?T) = FixedRank_zerovec f ?P"
    by (simp_all only: pz simp_thms)
  from s f vs pt sh p1 a pp b vf fp av pz c show ?thesis by blast
qed

section \<open>Orthonormality of the points that Stiefel returns\<close>

lemma sign_unflip: "sign (sign d + 0.5) = 1 \<or> sign (sign d + 0.5) = - 1"
  by (simp add: sign_def)

lemma sign_unflip_sq: "sign (sign d + 0.5) * sign (sign d + 0.5) = 1"
  using sign_unflip[of d] by auto

lemma diag_of_vec_mat: "mat (length v) (length v) (diag_of_vec v)"
  by (rule matI) (auto simp: diag_of_vec_def)

lemma diag_of_vec_nth:
  "i < length v \<Longrightarrow> j < length v \<Longrightarrow> diag_of_vec v ! i ! j = (if i = j then v ! i else 0)"
  by (simp add: diag_of_vec_def)

lemma mT_diag_of_vec: "0 < length v \<Longrightarrow> mT (diag_of_vec v) = diag_of_vec v"
  by (rule mat_eqI[of "length v" "length v"])
     (auto simp: diag_of_vec_mat mT_mat mT_nth[OF diag_of_vec_mat] diag_of_vec_nth)

lemma diag_of_vec_square:
  assumes "list_all (\<lambda>x. x * x = 1) v" "0 < length v"
  shows "matmul (diag_of_vec v) (diag_of_vec v) = eye (length v)"
proof (rule mat_eqI[of "length v" "length v"])
  let ?p = "length v"
  show "mat ?p ?p (matmul (diag_of_vec v) (diag_of_vec v))"
    using diag_of_vec_mat diag_of_vec_mat assms(2) by (rule matmul_mat)
  show "mat ?p ?p (eye ?p)" by (rule eye_mat)
  fix i j assume ij: "i < ?p" "j < ?p"
  have "matmul (diag_of_vec v) (diag_of_vec v) ! i ! j
        = (\<Sum>l<?p. (if i = l then v ! i else 0) * (if l = j then v ! l else 0))"
    using ij assms(2)
    by (simp add: matmul_nth[OF diag_of_vec_mat diag_of_vec_mat] diag_of_vec_nth)
  also have "\<dots> = (\<Sum>l<?p. if l = i then (if i = j then v ! i * v ! i else 0) else 0)"
    by (rule sum.cong) auto
  also have "\<dots> = (if i = j then v ! i * v ! i else 0)"
    using ij by simp
  also have "\<dots> = eye ?p ! i ! j"
    using ij assms(1) by (auto simp: eye_nth list_all_length)
  finally show "matmul (diag_of_vec v) (diag_of_vec v) ! i ! j = eye ?p ! i ! j" .
qed

lemma sign_correction_props:
  assumes r: "mat p p r" and p: "0 < p"
  shows "mat p p (sign_correction r)"
    and "mT (sign_correction r) = sign_correction r"
    and "matmul (sign_correction r) (sign_correction r) = eye p"
proof -
  let ?v = "map (\<lambda>d. sign (sign d + 0.5)) (diag_of_mat r)"
  have len: "length ?v = p"
    using r p by (simp add: diag_of_mat_def mat_length ncols_mat)
  have sq: "list_all (\<lambda>x. x * x = 1) ?v"
    by (auto simp: list_all_iff sign_def)
  show "mat p p (sign_correction r)"
    using diag_of_vec_mat[of ?v] len by (simp add: sign_correction_def)
  show "mT (sign_correction r) = sign_correction r"
    unfolding sign_correction_def using len p by (intro mT_diag_of_vec) simp
  show "matmul (sign_correction r) (sign_correction r) = eye p"
  proof -
    have "0 < length ?v" using len p by simp
    from diag_of_vec_square[OF sq this] show ?thesis
      by (simp only: sign_correction_def len)
  qed
qed

lemma qr_unflipped_orthonormal:
  assumes c: "qr_contract qr n p A" and pos: "0 < n" "0 < p"
  shows "mat n p (qr_unflipped qr A)" and "orthonormal_columns p (qr_unflipped qr A)"
proof -
  obtain q r where qr: "qr A = (q, r)" by (cases "qr A")
  with c have q: "mat n p q" and o: "matmul (mT q) q = eye p" and r: "mat p p r"
    by (simp_all add: qr_contract_def orthonormal_columns_def)
  let ?D = "sign_correction r"
  note D = sign_correction_props[OF r pos(2)]
  have val: "qr_unflipped qr A = matmul q ?D"
    by (simp add: qr_unflipped_def qr)
  have qt: "mat p n (mT q)" using q pos(1) by (rule mT_mat)
  have qD: "mat n p (matmul q ?D)" using q D(1) pos(2) by (rule matmul_mat)
  show "mat n p (qr_unflipped qr A)" using qD by (simp add: val)
  have "mT (matmul q ?D) = matmul (mT ?D) (mT q)"
    using q D(1) pos by (simp add: mT_matmul)
  then have "matmul (mT (matmul q ?D)) (matmul q ?D) = matmul (matmul ?D (mT q)) (matmul q ?D)"
    by (simp add: D(2))
  also have "\<dots> = matmul ?D (matmul (mT q) (matmul q ?D))"
    using D(1) qt qD pos(2) pos(1) by (rule matmul_assoc)
  also have "matmul (mT q) (matmul q ?D) = matmul (matmul (mT q) q) ?D"
    using matmul_assoc[OF qt q D(1) pos(1) pos(2)] by simp
  also have "\<dots> = ?D"
    unfolding o using D(1) pos(2) by (rule matmul_eye_left)
  finally have "matmul (mT (matmul q ?D)) (matmul q ?D) = eye p"
    by (simp add: D(3))
  then show "orthonormal_columns p (qr_unflipped qr A)"
    by (simp add: val orthonormal_columns_def)
qed

lemma retr_loop_map:
  "i \<le> length Xs \<Longrightarrow>
   retr_loop qr Xs [i..<length Xs] = Inr (take i Xs @ map (qr_unflipped qr) (drop i Xs))"
proof (induction "length Xs - i" arbitrary: i Xs)
  case 0
  then show ?case by simp
next
  case (Suc d)
  then have i: "i < length Xs" by simp
  let ?Xs' = "Xs[i := qr_unflipped qr (Xs ! i)]"
  have "retr_loop qr Xs [i..<length Xs] = retr_loop qr ?Xs' [Suc i..<length ?Xs']"
    using i by (simp add: upt_conv_Cons)
  also have "\<dots> = Inr (take (Suc i) ?Xs' @ map (qr_unflipped qr) (drop (Suc i) ?Xs'))"
    using Suc(2) i by (intro Suc(1)) simp_all
  also have "take (Suc i) ?Xs' = take i Xs @ [qr_unflipped qr (Xs ! i)]"
    using i by (simp add: take_Suc_conv_app_nth)
  also have "drop (Suc i) ?Xs' = drop (Suc i) Xs"
    by simp
  finally show ?case
    using i by (simp add: Cons_nth_drop_Suc[symmetric])
qed

lemma rand_loop_map:
  "i \<le> length X \<Longrightarrow>
   rand_loop qr randn X [i..<length X]
   = Inr (take i X @ map (\<lambda>j. fst (qr (randn j))) [i..<length X])"
proof (induction "length X - i" arbitrary: i X)
  case 0
  then show ?case by simp
next
  case (Suc d)
  then have i: "i < length X" by simp
  let ?X' = "X[i := fst (qr (randn i))]"
  have "rand_loop qr randn X [i..<length X] = rand_loop qr randn ?X' [Suc i..<length ?X']"
    using i by (simp add: upt_conv_Cons)
  also have "\<dots> = Inr (take (Suc i) ?X' @ map (\<lambda>j. fst (qr (randn j))) [Suc i..<length ?X'])"
    using Suc(2) i by (intro Suc(1)) simp_all
  also have "take (Suc i) ?X' = take i X @ [fst (qr (randn i))]"
    using i by (simp add: take_Suc_conv_app_nth)
  finally show ?case
    using i by (simp add: upt_conv_Cons)
qed

lemma Stiefel_retr_point:
  assumes v: "valid_stiefel s"
    and X: "has_shape (stiefel_shape s) X" and G: "has_shape (stiefel_shape s) G"
    and c: "list_all (qr_contract qr (nat (st_n s)) (nat (st_p s))) (blocks (nd_add X G))"
  shows "\<exists>Y. Stiefel_retr qr s X G = Inr Y \<and> stiefel_point s Y"
proof (cases "st_k s = 1")
  case True
  from valid_stiefel_pos[OF v] have pos: "0 < nat (st_n s)" "0 < nat (st_p s)" by simp_all
  from X True obtain A where A: "X = Arr2 A" by (cases X) (auto simp: stiefel_shape_def)
  from G True obtain B where B: "G = Arr2 B" by (cases G) (auto simp: stiefel_shape_def)
  from c have "qr_contract qr (nat (st_n s)) (nat (st_p s)) (madd A B)"
    by (simp add: A B)
  from qr_unflipped_orthonormal[OF this pos]
  have "stiefel_point s (Arr2 (qr_unflipped qr (madd A B)))"
    using True by (simp add: stiefel_point_def stiefel_shape_def)
  moreover have "Stiefel_retr qr s X G = Inr (Arr2 (qr_unflipped qr (madd A B)))"
    using True by (simp add: Stiefel_retr_def A B)
  ultimately show ?thesis by blast
next
  case False
  from valid_stiefel_pos[OF v] have pos: "0 < nat (st_n s)" "0 < nat (st_p s)" by simp_all
  from X False obtain As where A: "X = Arr3 As" "length As = nat (st_k s)"
    by (cases X) (auto simp: stiefel_shape_def)
  from G False obtain Bs where B: "G = Arr3 Bs" "length Bs = nat (st_k s)"
    by (cases G) (auto simp: stiefel_shape_def)
  let ?XNew = "map2 madd As Bs"
  let ?Y = "map (qr_unflipped qr) ?XNew"
  have len: "length ?XNew = nat (st_k s)" using A B by simp
  have "retr_loop qr ?XNew [0..<length ?XNew] = Inr (take 0 ?XNew @ map (qr_unflipped qr) (drop 0 ?XNew))"
    by (rule retr_loop_map) simp
  then have loop: "retr_loop qr ?XNew [0..<nat (st_k s)] = Inr ?Y"
    using len by simp
  have res: "Stiefel_retr qr s X G = Inr (Arr3 ?Y)"
    using False loop by (simp add: Stiefel_retr_def A B)
  from c have "list_all (qr_contract qr (nat (st_n s)) (nat (st_p s))) ?XNew"
    by (simp add: A B)
  then have "list_all (mat (nat (st_n s)) (nat (st_p s))) ?Y"
    and "list_all (orthonormal_columns (nat (st_p s))) ?Y"
    using qr_unflipped_orthonormal[OF _ pos] by (auto simp: list_all_iff)
  then have "stiefel_point s (Arr3 ?Y)"
    using False len by (simp add: stiefel_point_def stiefel_shape_def)
  with res show ?thesis by blast
qed

lemma Stiefel_rand_point:
  assumes v: "valid_stiefel s"
    and c: "list_all (\<lambda>i. qr_contract qr (nat (st_n s)) (nat (st_p s)) (randn i)) [0..<nat (st_k s)]"
  shows "\<exists>Y. Stiefel_rand qr randn s = Inr Y \<and> stiefel_point s Y"
proof (cases "st_k s = 1")
  case True
  obtain q r where qr: "qr (randn 0) = (q, r)" by (cases "qr (randn 0)")
  from c True have "qr_contract qr (nat (st_n s)) (nat (st_p s)) (randn 0)"
    by simp
  then have "mat (nat (st_n s)) (nat (st_p s)) q" "orthonormal_columns (nat (st_p s)) q"
    by (simp_all add: qr_contract_def qr)
  then have "stiefel_point s (Arr2 q)"
    using True by (simp add: stiefel_point_def stiefel_shape_def)
  moreover have "Stiefel_rand qr randn s = Inr (Arr2 q)"
    using True by (simp add: Stiefel_rand_def qr)
  ultimately show ?thesis by blast
next
  case False
  let ?k = "nat (st_k s)"
  let ?Xz = "replicate ?k (zeros (nat (st_n s)) (nat (st_p s)))"
  let ?Y = "map (\<lambda>j. fst (qr (randn j))) [0..<?k]"
  have "rand_loop qr randn ?Xz [0..<length ?Xz]
        = Inr (take 0 ?Xz @ map (\<lambda>j. fst (qr (randn j))) [0..<length ?Xz])"
    by (rule rand_loop_map) simp
  then have loop: "rand_loop qr randn ?Xz [0..<?k] = Inr ?Y"
    by simp
  have res: "Stiefel_rand qr randn s = Inr (Arr3 ?Y)"
    using False loop by (simp add: Stiefel_rand_def)
  have "list_all (mat (nat (st_n s)) (nat (st_p s))) ?Y"
    and "list_all (orthonormal_columns (nat (st_p s))) ?Y"
    using c by (auto simp: list_all_iff qr_contract_def case_prod_beta)
  then have "stiefel_point s (Arr3 ?Y)"
    using False by (simp add: stiefel_point_def stiefel_shape_def)
  with res show ?thesis by blast
qed

lemma vstack_mat: "mat a c A \<Longrightarrow> mat b c B \<Longrightarrow> mat (a + b) c (vstack A B)"
  by (auto simp: mat_def vstack_def)

lemma matmul_vstack_left: "matmul (vstack A B) C = vstack (matmul A C) (matmul B C)"
  by (simp add: matmul_def vstack_def)

lemma madd_vstack:
  "length A = length C \<Longrightarrow> madd (vstack A B) (vstack C D) = vstack (madd A C) (madd B D)"
  by (simp add: madd_def vstack_def)

lemma madd_hstack:
  assumes "mat r a A" "mat r b B" "mat r a C" "mat r b D"
  shows "madd (hstack A B) (hstack C D) = hstack (madd A C) (madd B D)"
proof (rule nth_equalityI)
  show "length (madd (hstack A B) (hstack C D)) = length (hstack (madd A C) (madd B D))"
    using assms by (simp add: madd_def hstack_def mat_length)
next
  fix i assume "i < length (madd (hstack A B) (hstack C D))"
  then have i: "i < r" using assms by (simp add: madd_def hstack_def mat_length)
  then show "madd (hstack A B) (hstack C D) ! i = hstack (madd A C) (madd B D) ! i"
    using assms by (simp add: madd_def hstack_def mat_length mat_nth_length)
qed

lemma zeros_vstack: "zeros (a + b) c = vstack (zeros a c) (zeros b c)"
  by (simp add: zeros_def vstack_def replicate_add)

lemma zeros_hstack: "zeros r (a + b) = hstack (zeros r a) (zeros r b)"
  by (simp add: zeros_def hstack_def replicate_add map_replicate_const zip_replicate)

lemma hstack_nth:
  "mat r a A \<Longrightarrow> mat r b B \<Longrightarrow> i < r \<Longrightarrow> j < a + b \<Longrightarrow>
   hstack A B ! i ! j = (if j < a then A ! i ! j else B ! i ! (j - a))"
  by (simp add: hstack_def mat_length mat_nth_length nth_append)

lemma vstack_nth:
  "mat a c A \<Longrightarrow> i < a + b \<Longrightarrow> vstack A B ! i = (if i < a then A ! i else B ! (i - a))"
  by (simp add: vstack_def mat_length nth_append)

lemma mT_hstack:
  assumes A: "mat r a A" and B: "mat r b B" and r: "0 < r"
  shows "mT (hstack A B) = vstack (mT A) (mT B)"
proof (rule mat_eqI[of "a + b" r])
  have H: "mat r (a + b) (hstack A B)" using A B by (rule hstack_mat)
  have At: "mat a r (mT A)" using A r by (rule mT_mat)
  have Bt: "mat b r (mT B)" using B r by (rule mT_mat)
  show "mat (a + b) r (mT (hstack A B))" using H r by (rule mT_mat)
  show "mat (a + b) r (vstack (mT A) (mT B))" using At Bt by (rule vstack_mat)
  fix i j assume ij: "i < a + b" "j < r"
  show "mT (hstack A B) ! i ! j = vstack (mT A) (mT B) ! i ! j"
    using ij r
    by (simp add: mT_nth[OF H] hstack_nth[OF A B] vstack_nth[OF At] mT_nth[OF A] mT_nth[OF B])
qed

lemma mT_vstack:
  assumes A: "mat a c A" and B: "mat b c B" and pos: "0 < a" "0 < b"
  shows "mT (vstack A B) = hstack (mT A) (mT B)"
proof (rule mat_eqI[of c "a + b"])
  have V: "mat (a + b) c (vstack A B)" using A B by (rule vstack_mat)
  have At: "mat c a (mT A)" using A pos(1) by (rule mT_mat)
  have Bt: "mat c b (mT B)" using B pos(2) by (rule mT_mat)
  have ab: "0 < a + b" using pos by simp
  show "mat c (a + b) (mT (vstack A B))" using V ab by (rule mT_mat)
  show "mat c (a + b) (hstack (mT A) (mT B))" using At Bt by (rule hstack_mat)
  fix i j assume ij: "i < c" "j < a + b"
  show "mT (vstack A B) ! i ! j = hstack (mT A) (mT B) ! i ! j"
    using ij pos
    by (simp add: mT_nth[OF V ab] vstack_nth[OF A] hstack_nth[OF At Bt] mT_nth[OF A] mT_nth[OF B])
qed

lemma matmul_hstack_right:
  assumes B: "mat n b B" and C: "mat n c C" and n: "0 < n"
  shows "matmul A (hstack B C) = hstack (matmul A B) (matmul A C)"
proof -
  have "mT (hstack B C) = mT B @ mT C"
    using mT_hstack[OF B C n] by (simp add: vstack_def)
  then show ?thesis
    by (simp add: matmul_def hstack_def zip_map_map map2_map_map[symmetric] del: map2_map_map)
       (induction A; simp)
qed

lemma matmul_hstack_vstack:
  assumes A: "mat r a A" and B: "mat r b B" and C: "mat a c C" and D: "mat b c D"
    and pos: "0 < a" "0 < b"
  shows "matmul (hstack A B) (vstack C D) = madd (matmul A C) (matmul B D)"
proof -
  have Ct: "mat c a (mT C)" using C pos(1) by (rule mT_mat)
  have Dt: "mat c b (mT D)" using D pos(2) by (rule mT_mat)
  show ?thesis
  proof (cases "c = 0")
    case True
    then have "mT (vstack C D) = []" "mT C = []" "mT D = []"
      using C D pos vstack_mat[OF C D] by (simp_all add: mT_def ncols_mat)
    then show ?thesis using A B
      by (simp add: matmul_def madd_def hstack_def mat_length)
         (rule nth_equalityI, simp_all)
  next
    case False
    then have c: "0 < c" by simp
    have "vstack C D = mT (hstack (mT C) (mT D))"
    proof -
      have "mT (hstack (mT C) (mT D)) = vstack (mT (mT C)) (mT (mT D))"
        using Ct Dt c by (rule mT_hstack)
      then show ?thesis using C D pos c by (simp add: mT_mT)
    qed
    then have "matmul (hstack A B) (vstack C D)
               = matmul (hstack A B) (mT (hstack (mT C) (mT D)))" by simp
    also have "\<dots> = madd (matmul A (mT (mT C))) (matmul B (mT (mT D)))"
      using A B Ct Dt pos c by (rule hstack_matmul_mT)
    finally show ?thesis using C D pos c by (simp add: mT_mT)
  qed
qed

lemma matmul_mneg_left:
  assumes "mat r n A" "mat n c B" "0 < n"
  shows "matmul (mneg A) B = mneg (matmul A B)"
proof (rule mat_eqI[of r c])
  have nA: "mat r n (mneg A)" using assms(1) by (rule mneg_mat)
  have AB: "mat r c (matmul A B)" using assms by (rule matmul_mat)
  show "mat r c (matmul (mneg A) B)" using nA assms(2,3) by (rule matmul_mat)
  show "mat r c (mneg (matmul A B))" using AB by (rule mneg_mat)
  fix i j assume "i < r" "j < c"
  then show "matmul (mneg A) B ! i ! j = mneg (matmul A B) ! i ! j"
    using assms
    by (simp add: matmul_nth[OF nA assms(2,3)] matmul_nth[OF assms] mneg_nth[OF AB]
                  mneg_nth[OF assms(1)] sum_negf)
qed

lemma mT_mneg:
  assumes "mat r c A" "0 < r"
  shows "mT (mneg A) = mneg (mT A)"
proof (rule mat_eqI[of c r])
  have nA: "mat r c (mneg A)" using assms(1) by (rule mneg_mat)
  have At: "mat c r (mT A)" using assms by (rule mT_mat)
  show "mat c r (mT (mneg A))" using nA assms(2) by (rule mT_mat)
  show "mat c r (mneg (mT A))" using At by (rule mneg_mat)
  fix i j assume "i < c" "j < r"
  then show "mT (mneg A) ! i ! j = mneg (mT A) ! i ! j"
    using assms by (simp add: mT_nth[OF nA] mneg_nth[OF At] mT_nth[OF assms(1)] mneg_nth[OF assms(1)])
qed

lemma madd_zeros_imp_mneg:
  assumes A: "mat r c A" and B: "mat r c B" and z: "madd A B = zeros r c"
  shows "B = mneg A"
proof (rule mat_eqI[of r c])
  show "mat r c B" by fact
  show "mat r c (mneg A)" using A by (rule mneg_mat)
  fix i j assume ij: "i < r" "j < c"
  have "madd A B ! i ! j = 0" using z ij by (simp add: zeros_nth)
  then show "B ! i ! j = mneg A ! i ! j"
    using ij by (simp add: madd_nth[OF A B] mneg_nth[OF A])
qed

lemma bmat_mat:
  "mat p p A \<Longrightarrow> mat p p B \<Longrightarrow> mat p p C \<Longrightarrow> mat p p D \<Longrightarrow> mat (p + p) (p + p) (bmat A B C D)"
  unfolding bmat_def by (intro vstack_mat hstack_mat)

lemma mT_bmat:
  assumes "mat p p A" "mat p p B" "mat p p C" "mat p p D" "0 < p"
  shows "mT (bmat A B C D) = bmat (mT A) (mT C) (mT B) (mT D)"
proof -
  have "mT (bmat A B C D) = hstack (mT (hstack A B)) (mT (hstack C D))"
    unfolding bmat_def
    using hstack_mat[OF assms(1,2)] hstack_mat[OF assms(3,4)] assms(5) assms(5)
    by (rule mT_vstack)
  also have "mT (hstack A B) = vstack (mT A) (mT B)" using assms(1,2,5) by (rule mT_hstack)
  also have "mT (hstack C D) = vstack (mT C) (mT D)" using assms(3,4,5) by (rule mT_hstack)
  also have "hstack (vstack (mT A) (mT B)) (vstack (mT C) (mT D))
             = vstack (hstack (mT A) (mT C)) (hstack (mT B) (mT D))"
  proof -
    have "length (mT A) = length (mT C)"
      using mT_mat[OF assms(1,5)] mT_mat[OF assms(3,5)] by (simp add: mat_length)
    then show ?thesis by (simp add: hstack_def vstack_def)
  qed
  finally show ?thesis by (simp add: bmat_def)
qed

lemma bmat_matmul:
  assumes "mat p p A" "mat p p B" "mat p p C" "mat p p D"
    and "mat p p A'" "mat p p B'" "mat p p C'" "mat p p D'" and p: "0 < p"
  shows "matmul (bmat A B C D) (bmat A' B' C' D')
         = bmat (madd (matmul A A') (matmul B C')) (madd (matmul A B') (matmul B D'))
                (madd (matmul C A') (matmul D C')) (madd (matmul C B') (matmul D D'))"
proof -
  have row: "matmul (hstack E F) (vstack (hstack A' B') (hstack C' D'))
             = hstack (madd (matmul E A') (matmul F C')) (madd (matmul E B') (matmul F D'))"
    if E: "mat p p E" and F: "mat p p F" for E F
  proof -
    have "matmul (hstack E F) (vstack (hstack A' B') (hstack C' D'))
          = madd (matmul E (hstack A' B')) (matmul F (hstack C' D'))"
      using E F hstack_mat[OF assms(5,6)] hstack_mat[OF assms(7,8)] p p
      by (rule matmul_hstack_vstack)
    also have "matmul E (hstack A' B') = hstack (matmul E A') (matmul E B')"
      using assms(5,6) p by (rule matmul_hstack_right)
    also have "matmul F (hstack C' D') = hstack (matmul F C') (matmul F D')"
      using assms(7,8) p by (rule matmul_hstack_right)
    also have "madd (hstack (matmul E A') (matmul E B')) (hstack (matmul F C') (matmul F D'))
               = hstack (madd (matmul E A') (matmul F C')) (madd (matmul E B') (matmul F D'))"
      using matmul_mat[OF E assms(5) p] matmul_mat[OF E assms(6) p]
            matmul_mat[OF F assms(7) p] matmul_mat[OF F assms(8) p]
      by (rule madd_hstack)
    finally show ?thesis .
  qed
  show ?thesis
    unfolding bmat_def matmul_vstack_left
    using row[OF assms(1,2)] row[OF assms(3,4)] by (simp add: bmat_def)
qed

lemma bmat_madd:
  assumes "mat p p A" "mat p p B" "mat p p C" "mat p p D"
    and "mat p p A'" "mat p p B'" "mat p p C'" "mat p p D'"
  shows "madd (bmat A B C D) (bmat A' B' C' D')
         = bmat (madd A A') (madd B B') (madd C C') (madd D D')"
proof -
  have "length (hstack A B) = length (hstack A' B')"
    using assms by (simp add: hstack_def mat_length)
  then show ?thesis
    unfolding bmat_def using assms by (simp add: madd_vstack madd_hstack[of p p _ p])
qed

lemma zeros_bmat: "zeros (p + p) (p + p) = bmat (zeros p p) (zeros p p) (zeros p p) (zeros p p)"
  by (simp add: bmat_def zeros_vstack[symmetric] zeros_hstack[symmetric])

lemma matmul_mneg_right:
  assumes "mat r n A" "mat n c B" "0 < n"
  shows "matmul A (mneg B) = mneg (matmul A B)"
proof (rule mat_eqI[of r c])
  have nB: "mat n c (mneg B)" using assms(2) by (rule mneg_mat)
  have AB: "mat r c (matmul A B)" using assms by (rule matmul_mat)
  show "mat r c (matmul A (mneg B))" using assms(1) nB assms(3) by (rule matmul_mat)
  show "mat r c (mneg (matmul A B))" using AB by (rule mneg_mat)
  fix i j assume "i < r" "j < c"
  then show "matmul A (mneg B) ! i ! j = mneg (matmul A B) ! i ! j"
    using assms
    by (simp add: matmul_nth[OF assms(1) nB assms(3)] matmul_nth[OF assms] mneg_nth[OF AB]
                  mneg_nth[OF assms(2)] sum_negf)
qed

lemma mneg_mneg: "mat r c A \<Longrightarrow> mneg (mneg A) = A"
  by (rule mat_eqI[of r c]) (auto simp: mneg_mat mneg_nth[of r c])

lemma madd_mneg_self: "mat r c A \<Longrightarrow> madd A (mneg A) = zeros r c"
  by (rule mat_eqI[of r c]) (auto simp: madd_mat mneg_mat zeros_mat madd_nth[of r c] mneg_nth[of r c] zeros_nth)

lemma cancel_crossed:
  assumes P: "mat r c P" and Q: "mat r c Q"
  shows "madd (madd (mneg P) Q) (madd (mneg Q) P) = zeros r c"
proof (rule mat_eqI[of r c])
  have a: "mat r c (madd (mneg P) Q)" using mneg_mat[OF P] Q by (rule madd_mat)
  have b: "mat r c (madd (mneg Q) P)" using mneg_mat[OF Q] P by (rule madd_mat)
  show "mat r c (madd (madd (mneg P) Q) (madd (mneg Q) P))" using a b by (rule madd_mat)
  show "mat r c (zeros r c)" by (rule zeros_mat)
  fix i j assume "i < r" "j < c"
  then show "madd (madd (mneg P) Q) (madd (mneg Q) P) ! i ! j = zeros r c ! i ! j"
    by (simp add: madd_nth[OF a b] madd_nth[OF mneg_mat[OF P] Q] madd_nth[OF mneg_mat[OF Q] P]
                  mneg_nth[OF P] mneg_nth[OF Q] zeros_nth)
qed

lemma cancel_pairs:
  assumes P: "mat r c P" and Q: "mat r c Q"
  shows "madd (madd (mneg P) (mneg Q)) (madd Q P) = zeros r c"
proof (rule mat_eqI[of r c])
  have a: "mat r c (madd (mneg P) (mneg Q))" using mneg_mat[OF P] mneg_mat[OF Q] by (rule madd_mat)
  have b: "mat r c (madd Q P)" using Q P by (rule madd_mat)
  show "mat r c (madd (madd (mneg P) (mneg Q)) (madd Q P))" using a b by (rule madd_mat)
  show "mat r c (zeros r c)" by (rule zeros_mat)
  fix i j assume "i < r" "j < c"
  then show "madd (madd (mneg P) (mneg Q)) (madd Q P) ! i ! j = zeros r c ! i ! j"
    by (simp add: madd_nth[OF a b] madd_nth[OF mneg_mat[OF P] mneg_mat[OF Q]] madd_nth[OF Q P]
                  mneg_nth[OF P] mneg_nth[OF Q] zeros_nth)
qed

lemma exp_block_orthonormal:
  assumes X: "mat n p X" and U: "mat n p U" and pos: "0 < n" "0 < p"
    and oX: "matmul (mT X) X = eye p"
    and tan: "tangent_block p X U"
    and c: "expm_contract expm p X U"
  shows "mat n p (exp_block expm p X U)" and "orthonormal_columns p (exp_block expm p X U)"
proof -
  let ?I = "eye p" and ?O = "zeros p p"
  let ?A = "matmul (mT X) U" and ?At = "matmul (mT U) X" and ?S = "matmul (mT U) U"
  let ?nS = "matmul (mneg (mT U)) U"
  let ?N = "matmul (mneg (mT X)) U"
  let ?B = "bmat ?A ?nS ?I ?A"
  let ?H = "hstack X U"
  let ?G = "matmul (mT ?H) ?H"
  let ?W = "expm ?B" and ?E = "expm ?N"
  let ?Z = "vstack ?E ?O"
  have pp: "0 < p + p" using pos by simp
  have I: "mat p p ?I" by (rule eye_mat)
  have O: "mat p p ?O" by (rule zeros_mat)
  have Xt: "mat p n (mT X)" using X pos(1) by (rule mT_mat)
  have Ut: "mat p n (mT U)" using U pos(1) by (rule mT_mat)
  have A: "mat p p ?A" using Xt U pos(1) by (rule matmul_mat)
  have At: "mat p p ?At" using Ut X pos(1) by (rule matmul_mat)
  have S: "mat p p ?S" using Ut U pos(1) by (rule matmul_mat)
  have nS: "?nS = mneg ?S" using Ut U pos(1) by (rule matmul_mneg_left)
  have N: "?N = mneg ?A" using Xt U pos(1) by (rule matmul_mneg_left)
  have mS: "mat p p (mneg ?S)" using S by (rule mneg_mat)
  have mA: "mat p p (mneg ?A)" using A by (rule mneg_mat)
  have tA: "mT ?A = ?At" using Xt U pos X by (simp add: mT_matmul mT_mT)
  have tS: "mT ?S = ?S" using Ut U pos by (simp add: mT_matmul mT_mT)
  have AtA: "?At = mneg ?A"
    using A At tan[unfolded tangent_block_def] by (rule madd_zeros_imp_mneg)
  have AA: "mat p p (matmul ?A ?A)" using A A pos(2) by (rule matmul_mat)
  have SA: "mat p p (matmul ?S ?A)" using S A pos(2) by (rule matmul_mat)
  have AS: "mat p p (matmul ?A ?S)" using A S pos(2) by (rule matmul_mat)
  \<comment> \<open>the Gram matrix of \<open>[X U]\<close>\<close>
  have H: "mat n (p + p) ?H" using X U by (rule hstack_mat)
  have Ht: "mT ?H = vstack (mT X) (mT U)" using X U pos(1) by (rule mT_hstack)
  have HtM: "mat (p + p) n (mT ?H)" using H pos(1) by (rule mT_mat)
  have G: "?G = bmat ?I ?A (mneg ?A) ?S"
    unfolding Ht matmul_vstack_left
    using matmul_hstack_right[OF X U pos(1), of "mT X"] matmul_hstack_right[OF X U pos(1), of "mT U"]
    by (simp add: bmat_def oX AtA)
  have Gm: "mat (p + p) (p + p) ?G" unfolding G using I A mA S by (rule bmat_mat)
  \<comment> \<open>the argument of \<open>expm\<close> is skew with respect to it\<close>
  have B: "?B = bmat ?A (mneg ?S) ?I ?A" by (simp add: nS)
  have Bm: "mat (p + p) (p + p) ?B" unfolding B using A mS I A by (rule bmat_mat)
  have tB: "mT ?B = bmat (mneg ?A) ?I (mneg ?S) (mneg ?A)"
    unfolding B using mT_bmat[OF A mS I A pos(2)] mT_mneg[OF S pos(2)]
    by (simp add: tA AtA tS mT_eye pos)
  have e1: "matmul (mneg ?A) ?I = mneg ?A" "matmul ?I (mneg ?A) = mneg ?A"
    "matmul ?I ?S = ?S" "matmul (mneg ?S) ?I = mneg ?S" "matmul ?I ?A = ?A"
    "matmul ?A ?I = ?A" "matmul ?I (mneg ?S) = mneg ?S" "matmul ?S ?I = ?S"
    using A S mA mS pos(2) by (simp_all add: matmul_eye_left matmul_eye_right)
  have e2: "matmul (mneg ?A) ?A = mneg (matmul ?A ?A)"
    "matmul (mneg ?S) ?A = mneg (matmul ?S ?A)"
    "matmul (mneg ?A) ?S = mneg (matmul ?A ?S)"
    using A S pos(2) by (simp_all add: matmul_mneg_left)
  have e3: "matmul (mneg ?A) (mneg ?A) = matmul ?A ?A"
    "matmul (mneg ?A) (mneg ?S) = matmul ?A ?S"
    using A S mA mS AA AS pos(2)
    by (simp_all add: matmul_mneg_left[of p p _ p] matmul_mneg_right[of p p _ p] mneg_mneg[of p p])
  have tBG: "matmul (mT ?B) ?G
             = bmat (madd (mneg ?A) (mneg ?A)) (madd (mneg (matmul ?A ?A)) ?S)
                    (madd (mneg ?S) (matmul ?A ?A))
                    (madd (mneg (matmul ?S ?A)) (mneg (matmul ?A ?S)))"
    unfolding tB G using bmat_matmul[OF mA I mS mA I A mA S pos(2)]
    by (simp add: e1 e2 e3)
  have GB: "matmul ?G ?B
            = bmat (madd ?A ?A) (madd (mneg ?S) (matmul ?A ?A))
                   (madd (mneg (matmul ?A ?A)) ?S) (madd (matmul ?A ?S) (matmul ?S ?A))"
    unfolding B G using bmat_matmul[OF I A mA S A mS I A pos(2)]
    by (simp add: e1 e2 e3)
  have skew: "madd (matmul (mT ?B) ?G) (matmul ?G ?B) = zeros (p + p) (p + p)"
    unfolding tBG GB
    using bmat_madd[OF madd_mat[OF mA mA] madd_mat[OF mneg_mat[OF AA] S]
                       madd_mat[OF mS AA] madd_mat[OF mneg_mat[OF SA] mneg_mat[OF AS]]
                       madd_mat[OF A A] madd_mat[OF mS AA]
                       madd_mat[OF mneg_mat[OF AA] S] madd_mat[OF AS SA]]
    by (simp add: cancel_pairs[OF A A] cancel_crossed[OF AA S] cancel_crossed[OF S AA]
                  cancel_pairs[OF SA AS] zeros_bmat)
  from c have iso1: "expm_isometry expm (p + p) ?B ?G" and iso2: "expm_isometry expm p ?N ?I"
    by (simp_all add: expm_contract_def)
  from iso1 skew have W: "mat (p + p) (p + p) ?W" and WGW: "matmul (matmul (mT ?W) ?G) ?W = ?G"
    by (simp_all add: expm_isometry_def)
  have "mT ?N = ?A"
    unfolding N using mT_mneg[OF A pos(2)] by (simp add: tA AtA mneg_mneg[OF A])
  then have "madd (matmul (mT ?N) ?I) (matmul ?I ?N) = madd ?A (mneg ?A)"
    by (simp add: N e1)
  also have "\<dots> = ?O" using A by (rule madd_mneg_self)
  finally have skewN: "madd (matmul (mT ?N) ?I) (matmul ?I ?N) = ?O" .
  from iso2 skewN have E: "mat p p ?E" and "matmul (matmul (mT ?E) ?I) ?E = ?I"
    by (simp_all add: expm_isometry_def)
  then have EE: "matmul (mT ?E) ?E = ?I"
    using mT_mat[OF E pos(2)] pos(2) by (simp add: matmul_eye_right)
  \<comment> \<open>the product \<open>Y = [X U] W Z\<close>\<close>
  have Et: "mat p p (mT ?E)" using E pos(2) by (rule mT_mat)
  have Z: "mat (p + p) p ?Z" using E O by (rule vstack_mat)
  have Zt: "mT ?Z = hstack (mT ?E) ?O"
    using mT_vstack[OF E O pos(2) pos(2)] by (simp add: mT_zeros pos)
  have ZtM: "mat p (p + p) (mT ?Z)" using Z pp by (rule mT_mat)
  have Wt: "mat (p + p) (p + p) (mT ?W)" using W pp by (rule mT_mat)
  have HW: "mat n (p + p) (matmul ?H ?W)" using H W pp by (rule matmul_mat)
  have Y: "mat n p (matmul (matmul ?H ?W) ?Z)" using HW Z pp by (rule matmul_mat)
  have val: "exp_block expm p X U = matmul (matmul ?H ?W) ?Z"
    by (simp add: exp_block_def Let_def)
  show "mat n p (exp_block expm p X U)" using Y by (simp only: val)
  have GZ: "matmul ?G ?Z = vstack ?E (matmul (mneg ?A) ?E)"
  proof -
    have "matmul (hstack ?I ?A) ?Z = madd (matmul ?I ?E) (matmul ?A ?O)"
      using I A E O pos(2) pos(2) by (rule matmul_hstack_vstack)
    also have "\<dots> = ?E"
      using E A pos(2) by (simp add: matmul_eye_left matmul_zeros_right madd_zeros_right)
    finally have r1: "matmul (hstack ?I ?A) ?Z = ?E" .
    have "matmul (hstack (mneg ?A) ?S) ?Z = madd (matmul (mneg ?A) ?E) (matmul ?S ?O)"
      using mA S E O pos(2) pos(2) by (rule matmul_hstack_vstack)
    also have "\<dots> = matmul (mneg ?A) ?E"
      using S pos(2) matmul_mat[OF mA E pos(2)]
      by (simp add: matmul_zeros_right madd_zeros_right)
    finally have r2: "matmul (hstack (mneg ?A) ?S) ?Z = matmul (mneg ?A) ?E" .
    show ?thesis
      unfolding G bmat_def matmul_vstack_left by (simp only: r1 r2)
  qed
  have WZ: "mat (p + p) p (matmul ?W ?Z)" using W Z pp by (rule matmul_mat)
  have GW: "mat (p + p) (p + p) (matmul ?G ?W)" using Gm W pp by (rule matmul_mat)
  have "mT (matmul (matmul ?H ?W) ?Z) = matmul (mT ?Z) (mT (matmul ?H ?W))"
    using HW Z pp pos by (simp add: mT_matmul)
  also have "mT (matmul ?H ?W) = matmul (mT ?W) (mT ?H)"
    using H W pp pos by (simp add: mT_matmul)
  finally have Yt: "mT (matmul (matmul ?H ?W) ?Z) = matmul (mT ?Z) (matmul (mT ?W) (mT ?H))" .
  have WtHt: "mat (p + p) n (matmul (mT ?W) (mT ?H))" using Wt HtM pp by (rule matmul_mat)
  have "matmul (mT ?H) (matmul (matmul ?H ?W) ?Z) = matmul (matmul (mT ?H) (matmul ?H ?W)) ?Z"
    using matmul_assoc[OF HtM HW Z pos(1) pp] by simp
  also have "matmul (mT ?H) (matmul ?H ?W) = matmul ?G ?W"
    using matmul_assoc[OF HtM H W pos(1) pp] by simp
  finally have s1: "matmul (mT ?H) (matmul (matmul ?H ?W) ?Z) = matmul (matmul ?G ?W) ?Z" .
  have "matmul (matmul (mT ?W) (mT ?H)) (matmul (matmul ?H ?W) ?Z)
        = matmul (mT ?W) (matmul (mT ?H) (matmul (matmul ?H ?W) ?Z))"
    using Wt HtM Y pp pos(1) by (rule matmul_assoc)
  also have "\<dots> = matmul (mT ?W) (matmul (matmul ?G ?W) ?Z)"
    by (simp only: s1)
  also have "\<dots> = matmul (matmul (mT ?W) (matmul ?G ?W)) ?Z"
    using matmul_assoc[OF Wt GW Z pp pp] by simp
  also have "matmul (mT ?W) (matmul ?G ?W) = matmul (matmul (mT ?W) ?G) ?W"
    using matmul_assoc[OF Wt Gm W pp pp] by simp
  also have "\<dots> = ?G" by (rule WGW)
  finally have s2: "matmul (matmul (mT ?W) (mT ?H)) (matmul (matmul ?H ?W) ?Z) = matmul ?G ?Z" .
  have "matmul (mT (matmul (matmul ?H ?W) ?Z)) (matmul (matmul ?H ?W) ?Z)
        = matmul (mT ?Z) (matmul (matmul (mT ?W) (mT ?H)) (matmul (matmul ?H ?W) ?Z))"
    unfolding Yt using ZtM WtHt Y pp pos(1) by (rule matmul_assoc)
  also have "\<dots> = matmul (hstack (mT ?E) ?O) (vstack ?E (matmul (mneg ?A) ?E))"
    by (simp only: s2 GZ Zt)
  also have "\<dots> = madd (matmul (mT ?E) ?E) (matmul ?O (matmul (mneg ?A) ?E))"
    using Et O E matmul_mat[OF mA E pos(2)] pos(2) pos(2) by (rule matmul_hstack_vstack)
  also have "\<dots> = ?I"
    using matmul_mat[OF mA E pos(2)] pos(2) I
    by (simp add: EE matmul_zeros_left madd_zeros_right)
  finally show "orthonormal_columns p (exp_block expm p X U)"
    by (simp only: val orthonormal_columns_def)
qed

lemma exp_loop_map:
  "i \<le> length Y \<Longrightarrow> length X = length Y \<Longrightarrow> length U = length Y \<Longrightarrow>
   exp_loop expm p X U Y [i..<length Y]
   = Inr (take i Y @ map (\<lambda>j. exp_block expm p (X ! j) (U ! j)) [i..<length Y])"
proof (induction "length Y - i" arbitrary: i Y)
  case 0
  then show ?case by simp
next
  case (Suc d)
  then have i: "i < length Y" by simp
  let ?Y' = "Y[i := exp_block expm p (X ! i) (U ! i)]"
  have "exp_loop expm p X U Y [i..<length Y] = exp_loop expm p X U ?Y' [Suc i..<length ?Y']"
    using i Suc.prems by (simp add: upt_conv_Cons)
  also have "\<dots> = Inr (take (Suc i) ?Y'
                      @ map (\<lambda>j. exp_block expm p (X ! j) (U ! j)) [Suc i..<length ?Y'])"
    using Suc(2) i Suc.prems by (intro Suc(1)) simp_all
  also have "take (Suc i) ?Y' = take i Y @ [exp_block expm p (X ! i) (U ! i)]"
    using i by (simp add: take_Suc_conv_app_nth)
  finally show ?case
    using i by (simp add: upt_conv_Cons)
qed

lemma Stiefel_exp_point:
  assumes v: "valid_stiefel s" and X: "stiefel_point s X" and U: "stiefel_tangent s X U"
    and c: "list_all (\<lambda>(Xb, Ub). expm_contract expm (nat (st_p s)) Xb Ub) (zip (blocks X) (blocks U))"
  shows "\<exists>Y. Stiefel_exp expm s X U = Inr Y \<and> stiefel_point s Y"
proof (cases "st_k s = 1")
  case True
  from valid_stiefel_pos[OF v] have pos: "0 < nat (st_n s)" "0 < nat (st_p s)" by simp_all
  from X True obtain A where A: "X = Arr2 A" "mat (nat (st_n s)) (nat (st_p s)) A"
      "matmul (mT A) A = eye (nat (st_p s))"
    by (cases X) (auto simp: stiefel_point_def stiefel_shape_def orthonormal_columns_def)
  from U True obtain B where B: "U = Arr2 B" "mat (nat (st_n s)) (nat (st_p s)) B"
    by (cases U) (auto simp: stiefel_tangent_def stiefel_shape_def)
  from U have t: "tangent_block (nat (st_p s)) A B"
    by (simp add: stiefel_tangent_def A(1) B(1))
  from c have e: "expm_contract expm (nat (st_p s)) A B"
    by (simp add: A(1) B(1))
  from exp_block_orthonormal[OF A(2) B(2) pos A(3) t e]
  have "stiefel_point s (Arr2 (exp_block expm (nat (st_p s)) A B))"
    using True by (simp add: stiefel_point_def stiefel_shape_def)
  moreover have "Stiefel_exp expm s X U = Inr (Arr2 (exp_block expm (nat (st_p s)) A B))"
    using True by (simp add: Stiefel_exp_def A(1) B(1))
  ultimately show ?thesis by blast
next
  case False
  let ?n = "nat (st_n s)" and ?p = "nat (st_p s)" and ?k = "nat (st_k s)"
  from valid_stiefel_pos[OF v] have pos: "0 < ?n" "0 < ?p" by simp_all
  from X False obtain As where A: "X = Arr3 As" "length As = ?k" "list_all (mat ?n ?p) As"
      "list_all (orthonormal_columns ?p) As"
    by (cases X) (auto simp: stiefel_point_def stiefel_shape_def)
  from U False obtain Bs where B: "U = Arr3 Bs" "length Bs = ?k" "list_all (mat ?n ?p) Bs"
    by (cases U) (auto simp: stiefel_tangent_def stiefel_shape_def)
  let ?Yz = "map (\<lambda>A. zeros (length A) (ncols A)) As"
  let ?Y = "map (\<lambda>j. exp_block expm ?p (As ! j) (Bs ! j)) [0..<?k]"
  have "exp_loop expm ?p As Bs ?Yz [0..<length ?Yz]
        = Inr (take 0 ?Yz @ map (\<lambda>j. exp_block expm ?p (As ! j) (Bs ! j)) [0..<length ?Yz])"
    using A(2) B(2) by (intro exp_loop_map) simp_all
  then have loop: "exp_loop expm ?p As Bs ?Yz [0..<?k] = Inr ?Y"
    using A(2) by simp
  have res: "Stiefel_exp expm s X U = Inr (Arr3 ?Y)"
    using False loop by (simp add: Stiefel_exp_def A(1) B(1))
  have blk: "mat ?n ?p (exp_block expm ?p (As ! j) (Bs ! j))
             \<and> orthonormal_columns ?p (exp_block expm ?p (As ! j) (Bs ! j))" if j: "j < ?k" for j
  proof -
    have a: "mat ?n ?p (As ! j)" "matmul (mT (As ! j)) (As ! j) = eye ?p"
      using A j by (auto simp: list_all_length orthonormal_columns_def)
    have b: "mat ?n ?p (Bs ! j)" using B j by (auto simp: list_all_length)
    have jz: "j < length (zip As Bs)" using A(2) B(2) j by simp
    have t: "tangent_block ?p (As ! j) (Bs ! j)"
      using U jz by (auto simp: stiefel_tangent_def A(1) B(1) list_all_length)
    have e: "expm_contract expm ?p (As ! j) (Bs ! j)"
      using c jz by (auto simp: A(1) B(1) list_all_length)
    from exp_block_orthonormal[OF a(1) b pos a(2) t e] show ?thesis by simp
  qed
  then have "list_all (mat ?n ?p) ?Y" and "list_all (orthonormal_columns ?p) ?Y"
    by (auto simp: list_all_iff)
  then have "stiefel_point s (Arr3 ?Y)"
    using False by (simp add: stiefel_point_def stiefel_shape_def)
  with res show ?thesis by blast
qed

lemma diag_of_mat_diag_of_vec: "diag_of_mat (diag_of_vec v) = v"
proof (rule nth_equalityI)
  have "ncols (diag_of_vec v) = length v"
    by (cases v) (simp_all add: ncols_def diag_of_vec_def upt_conv_Cons del: upt_Suc)
  then show len: "length (diag_of_mat (diag_of_vec v)) = length v"
    by (simp add: diag_of_mat_def diag_of_vec_def)
  fix i assume "i < length (diag_of_mat (diag_of_vec v))"
  then show "diag_of_mat (diag_of_vec v) ! i = v ! i"
    using len by (simp add: diag_of_mat_def diag_of_vec_def)
qed

lemma sign_correction_diagonal:
  "list_all (\<lambda>d. d = 1 \<or> d = - 1) (diag_of_mat (sign_correction r))"
  by (auto simp: sign_correction_def diag_of_mat_diag_of_vec list_all_iff sign_def)

text \<open>
  Claim C5.  For a Stiefel(n, p, k) instance, the array that \<open>rand()\<close> returns and, at a point
  \<open>X\<close> and for a tangent vector \<open>G\<close>, the arrays that \<open>retr(X, G)\<close> and \<open>exp(X, G)\<close> return
  are points: of the manifold's shape, with \<open>Y\<^sup>T Y = I\<close> in every block.  The diagonal of
  the factor \<open>diag(sign(sign(diag(R)) + 0.5))\<close> of \<open>retr\<close> holds only \<open>1\<close> and \<open>-1\<close>.
  The hypotheses on \<open>qr\<close> and \<open>expm\<close> are the library contracts \<open>qr_contract\<close> and
  \<open>expm_contract\<close>, at the matrices the calls are made on.
\<close>

theorem Stiefel_outputs_are_orthonormal:
  "(valid_stiefel s
      \<and> list_all (\<lambda>i. qr_contract qr (nat (st_n s)) (nat (st_p s)) (randn i)) [0..<nat (st_k s)]
     \<longrightarrow> (\<exists>Y. Stiefel_rand qr randn s = Inr Y \<and> stiefel_point s Y))
   \<and> (valid_stiefel s \<and> stiefel_point s X \<and> stiefel_tangent s X G
      \<and> list_all (qr_contract qr (nat (st_n s)) (nat (st_p s))) (blocks (nd_add X G))
     \<longrightarrow> (\<exists>Y. Stiefel_retr qr s X G = Inr Y \<and> stiefel_point s Y))
   \<and> (valid_stiefel s \<and> stiefel_point s X \<and> stiefel_tangent s X G
      \<and> list_all (\<lambda>(Xb, Gb). expm_contract expm (nat (st_p s)) Xb Gb) (zip (blocks X) (blocks G))
     \<longrightarrow> (\<exists>Y. Stiefel_exp expm s X G = Inr Y \<and> stiefel_point s Y))
   \<and> list_all (\<lambda>d. d = 1 \<or> d = - 1) (diag_of_mat (sign_correction r))"
proof (intro conjI impI)
  assume "valid_stiefel s
      \<and> list_all (\<lambda>i. qr_contract qr (nat (st_n s)) (nat (st_p s)) (randn i)) [0..<nat (st_k s)]"
  then show "\<exists>Y. Stiefel_rand qr randn s = Inr Y \<and> stiefel_point s Y"
    using Stiefel_rand_point[of s qr randn] by blast
next
  assume a: "valid_stiefel s \<and> stiefel_point s X \<and> stiefel_tangent s X G
      \<and> list_all (qr_contract qr (nat (st_n s)) (nat (st_p s))) (blocks (nd_add X G))"
  then have "has_shape (stiefel_shape s) X" "has_shape (stiefel_shape s) G"
    by (simp_all add: stiefel_point_def stiefel_tangent_def)
  with a show "\<exists>Y. Stiefel_retr qr s X G = Inr Y \<and> stiefel_point s Y"
    using Stiefel_retr_point[of s X G qr] by blast
next
  assume "valid_stiefel s \<and> stiefel_point s X \<and> stiefel_tangent s X G
      \<and> list_all (\<lambda>(Xb, Gb). expm_contract expm (nat (st_p s)) Xb Gb) (zip (blocks X) (blocks G))"
  then show "\<exists>Y. Stiefel_exp expm s X G = Inr Y \<and> stiefel_point s Y"
    using Stiefel_exp_point[of s X G expm] by blast
next
  show "list_all (\<lambda>d. d = 1 \<or> d = - 1) (diag_of_mat (sign_correction r))"
    by (rule sign_correction_diagonal)
qed

theorem Stiefel_outputs_are_orthonormal_witness:
  "\<exists>s. Stiefel_init 2 1 1 = Inr s
     \<and> Stiefel_rand (\<lambda>A. ([[- 3 / 5], [- 4 / 5]], [[- 5 / 3]])) (\<lambda>i. [[1], [4 / 3]]) s
         = Inr (Arr2 [[- 3 / 5], [- 4 / 5]])
     \<and> stiefel_point s (Arr2 [[- 3 / 5], [- 4 / 5]])
     \<and> stiefel_point s (Arr2 [[1], [0]])
     \<and> stiefel_tangent s (Arr2 [[1], [0]]) (Arr2 [[0], [4 / 3]])
     \<and> sign_correction [[- 5 / 3]] = [[- 1]]
     \<and> Stiefel_retr (\<lambda>A. ([[- 3 / 5], [- 4 / 5]], [[- 5 / 3]])) s (Arr2 [[1], [0]]) (Arr2 [[0], [4 / 3]])
         = Inr (Arr2 [[3 / 5], [4 / 5]])
     \<and> stiefel_point s (Arr2 [[3 / 5], [4 / 5]])
     \<and> stiefel_tangent s (Arr2 [[1], [0]]) (Arr2 [[0], [0]])
     \<and> Stiefel_exp (\<lambda>B. if B = [[0]] then [[1]] else [[1, 0], [1, 1]]) s
          (Arr2 [[1], [0]]) (Arr2 [[0], [0]]) = Inr (Arr2 [[1], [0]])"
proof -
  let ?qr = "\<lambda>A::mat. ([[- 3 / 5], [- 4 / 5]], [[- 5 / 3]]) :: mat \<times> mat"
  let ?randn = "\<lambda>i::nat. [[1], [4 / 3]] :: mat"
  let ?expm = "\<lambda>B::mat. if B = [[0]] then [[1]] else [[1, 0], [1, 1]] :: mat"
  let ?X = "Arr2 [[1], [0]]" and ?G = "Arr2 [[0], [4 / 3]]" and ?O = "Arr2 [[0], [0]]"
  obtain s where s: "Stiefel_init 2 1 1 = Inr s"
    by (simp add: Stiefel_init_small)
  from s have sf: "st_n s = 2" "st_p s = 1" "st_k s = 1"
    by (auto simp: Stiefel_init_small)
  have vs: "valid_stiefel s" using s by (simp add: valid_stiefel_def sf)
  have ev: "matmul (mT [[1], [0]]) [[1], [0]] = eye 1"
    by (simp add: matmul_def mT_def ncols_def dot_def eye_def)
  have pt: "stiefel_point s ?X"
    by (simp add: stiefel_point_def stiefel_shape_def sf mat_def orthonormal_columns_def ev)
  have tg: "stiefel_tangent s ?X ?G" "stiefel_tangent s ?X ?O"
    by (simp_all add: stiefel_tangent_def stiefel_shape_def sf mat_def tangent_block_def
                      matmul_def mT_def ncols_def dot_def madd_def zeros_def)
  have q1: "list_all (\<lambda>i. qr_contract ?qr (nat (st_n s)) (nat (st_p s)) (?randn i))
              [0..<nat (st_k s)]"
    by (simp add: sf qr_contract_def mat_def orthonormal_columns_def matmul_def mT_def ncols_def
                  dot_def eye_def)
  have q2: "list_all (qr_contract ?qr (nat (st_n s)) (nat (st_p s))) (blocks (nd_add ?X ?G))"
    by (simp add: sf qr_contract_def mat_def orthonormal_columns_def matmul_def mT_def ncols_def
                  dot_def eye_def)
  have e: "list_all (\<lambda>(Xb, Gb). expm_contract ?expm (nat (st_p s)) Xb Gb)
             (zip (blocks ?X) (blocks ?O))"
    by (simp add: sf expm_contract_def expm_isometry_def mat_def matmul_def mT_def ncols_def
                  dot_def eye_def bmat_def hstack_def vstack_def mneg_def madd_def zeros_def)
  have sc: "sign_correction [[- 5 / 3]] = [[- 1]]"
    by (simp add: sign_correction_def diag_of_mat_def diag_of_vec_def ncols_def sign_def)
  have v1: "Stiefel_rand ?qr ?randn s = Inr (Arr2 [[- 3 / 5], [- 4 / 5]])"
    by (simp add: Stiefel_rand_def sf)
  have v2: "Stiefel_retr ?qr s ?X ?G = Inr (Arr2 [[3 / 5], [4 / 5]])"
    by (simp add: Stiefel_retr_def sf qr_unflipped_def sign_correction_def diag_of_mat_def
                  diag_of_vec_def sign_def matmul_def mT_def ncols_def dot_def madd_def)
  have v3: "Stiefel_exp ?expm s ?X ?O = Inr (Arr2 [[1], [0]])"
    by (simp add: Stiefel_exp_def sf exp_block_def Let_def matmul_def mT_def ncols_def dot_def
                  eye_def bmat_def hstack_def vstack_def mneg_def zeros_def)
  note inst = Stiefel_outputs_are_orthonormal [of s ?qr ?randn ?X ?G ?expm]
  note inst' = Stiefel_outputs_are_orthonormal [of s ?qr ?randn ?X ?O ?expm]
  from inst vs q1 have r1: "stiefel_point s (Arr2 [[- 3 / 5], [- 4 / 5]])"
    unfolding v1 by blast
  from inst vs pt tg(1) q2 have r2: "stiefel_point s (Arr2 [[3 / 5], [4 / 5]])"
    unfolding v2 by blast
  from inst' vs pt tg(2) e have r3: "stiefel_point s (Arr2 [[1], [0]])"
    unfolding v3 by blast
  from s v1 r1 pt tg sc v2 r2 v3 show ?thesis by blast
qed

section \<open>Arguments are read only\<close>

text \<open>
  The frame of a call: the heap after the call extends the heap before it, and the result
  lives in the cells that were added.
\<close>

lemma take_length_le: "take (length h) h1 = h \<Longrightarrow> length h \<le> length h1"
proof -
  assume a: "take (length h) h1 = h"
  have "min (length h) (length h1) = length (take (length h) h1)" by simp
  also have "\<dots> = length h" by (simp only: a)
  finally show ?thesis by linarith
qed

lemma take_trans:
  assumes "take (length h) h1 = h" "take (length h1) h2 = h1"
  shows "take (length h) h2 = h"
proof -
  have le: "length h \<le> length h1"
    using assms(1) by (rule take_length_le)
  have "take (length h) h2 = take (length h) (take (length h1) h2)"
    using le by (simp add: min_def)
  then show ?thesis using assms by simp
qed

lemma frameI:
  "take (length h) h' = h \<Longrightarrow> list_all (\<lambda>r. length h \<le> r \<and> r < length h') (refs_of v)
   \<Longrightarrow> frame h h' v"
  by (simp add: frame_def)

lemma frame_refl_scalar: "frame h h (Scalar x)"
  by (simp add: frame_def)

lemma store_frame:
  "store h c = (r, h') \<Longrightarrow>
   take (length h) h' = h \<and> list_all (\<lambda>x. length h \<le> x \<and> x < length h') (refs_of_cref r)"
  by (cases c) (auto simp: alloc_def split: prod.splits)

lemma returning_frame: "returning h c = Inr (v, h') \<Longrightarrow> frame h h' v"
  by (auto simp: returning_def frame_def split: prod.splits dest: store_frame)

lemma setitem_keep:
  assumes "setitem h a i M = Inr h'" "n \<le> a"
  shows "take n h' = take n h \<and> length h' = length h"
  using assms by (auto simp: setitem_def split: ndarray.splits if_splits)

lemma retr_loop_st_keep:
  "retr_loop_st qr h x is = Inr h' \<Longrightarrow> n \<le> x \<Longrightarrow> take n h' = take n h \<and> length h' = length h"
proof (induction "is" arbitrary: h)
  case Nil
  then show ?case by simp
next
  case (Cons i "is")
  from Cons.prems(1) obtain h1 where
    s: "setitem h x i (qr_unflipped qr (blocks (h ! x) ! i)) = Inr h1"
    and r: "retr_loop_st qr h1 x is = Inr h'"
    by (auto split: sum.splits)
  from setitem_keep[OF s Cons.prems(2)] Cons.IH[OF r Cons.prems(2)] show ?case by simp
qed

lemma rand_loop_st_keep:
  "rand_loop_st qr randn h x is = Inr h' \<Longrightarrow> n \<le> x
   \<Longrightarrow> take n h' = take n h \<and> length h' = length h"
proof (induction "is" arbitrary: h)
  case Nil
  then show ?case by simp
next
  case (Cons i "is")
  from Cons.prems(1) obtain h1 where
    s: "setitem h x i (fst (qr (randn i))) = Inr h1"
    and r: "rand_loop_st qr randn h1 x is = Inr h'"
    by (auto split: sum.splits)
  from setitem_keep[OF s Cons.prems(2)] Cons.IH[OF r Cons.prems(2)] show ?case by simp
qed

lemma exp_loop_st_keep:
  "exp_loop_st expm p h X U y is = Inr h' \<Longrightarrow> n \<le> y
   \<Longrightarrow> take n h' = take n h \<and> length h' = length h"
proof (induction "is" arbitrary: h)
  case Nil
  then show ?case by simp
next
  case (Cons i "is")
  from Cons.prems(1) obtain Xs Us h1 where
    xu: "h ! X = Arr3 Xs" "h ! U = Arr3 Us"
    and s: "setitem h y i (exp_block expm p (Xs ! i) (Us ! i)) = Inr h1"
    and r: "exp_loop_st expm p h1 X U y is = Inr h'"
    by (auto split: sum.splits ndarray.splits if_splits)
  from setitem_keep[OF s Cons.prems(2)] Cons.IH[OF r Cons.prems(2)] show ?case by simp
qed

lemma loop_frame:
  assumes "take (length h) h2 = take (length h) (h @ [A])" "length h2 = length (h @ [A])"
  shows "frame h h2 (Element (RArray (length h)))"
  using assms by (simp add: frame_def)

lemma Stiefel_retr_st_frame:
  "Stiefel_retr_st qr self h X G = Inr (v, h') \<Longrightarrow> frame h h' v"
proof (cases "st_k self = 1")
  case True
  assume "Stiefel_retr_st qr self h X G = Inr (v, h')"
  with True show ?thesis by (simp add: Stiefel_retr_st_def returning_frame)
next
  case False
  assume a: "Stiefel_retr_st qr self h X G = Inr (v, h')"
  let ?h1 = "h @ [nd_add (h ! X) (h ! G)]"
  from a False have l: "retr_loop_st qr ?h1 (length h) [0..<nat (st_k self)] = Inr h'"
    and v: "v = Element (RArray (length h))"
    by (auto simp: Stiefel_retr_st_def alloc_def split: sum.splits)
  from retr_loop_st_keep[OF l order_refl] show ?thesis
    unfolding v by (intro loop_frame) simp_all
qed

lemma Stiefel_rand_st_frame:
  "Stiefel_rand_st qr randn self h = Inr (v, h') \<Longrightarrow> frame h h' v"
proof (cases "st_k self = 1")
  case True
  assume "Stiefel_rand_st qr randn self h = Inr (v, h')"
  with True show ?thesis by (simp add: Stiefel_rand_st_def returning_frame)
next
  case False
  assume a: "Stiefel_rand_st qr randn self h = Inr (v, h')"
  let ?h1 = "h @ [Arr3 (replicate (nat (st_k self)) (zeros (nat (st_n self)) (nat (st_p self))))]"
  from a False have l: "rand_loop_st qr randn ?h1 (length h) [0..<nat (st_k self)] = Inr h'"
    and v: "v = Element (RArray (length h))"
    by (auto simp: Stiefel_rand_st_def alloc_def split: sum.splits)
  from rand_loop_st_keep[OF l order_refl] show ?thesis
    unfolding v by (intro loop_frame) simp_all
qed

lemma Stiefel_exp_st_frame:
  "Stiefel_exp_st expm self h X U = Inr (v, h') \<Longrightarrow> frame h h' v"
proof (cases "st_k self = 1")
  case True
  assume "Stiefel_exp_st expm self h X U = Inr (v, h')"
  with True show ?thesis by (simp add: Stiefel_exp_st_def returning_frame)
next
  case False
  assume a: "Stiefel_exp_st expm self h X U = Inr (v, h')"
  let ?h1 = "h @ [Arr3 (map (\<lambda>A. zeros (length A) (ncols A)) (blocks (h ! X)))]"
  from a False
  have l: "exp_loop_st expm (nat (st_p self)) ?h1 X U (length h) [0..<nat (st_k self)] = Inr h'"
    and v: "v = Element (RArray (length h))"
    by (auto simp: Stiefel_exp_st_def alloc_def split: sum.splits)
  from exp_loop_st_keep[OF l order_refl] show ?thesis
    unfolding v by (intro loop_frame) simp_all
qed

lemma Stiefel_call_frame: "Stiefel_call L self h c = Inr (v, h') \<Longrightarrow> frame h h' v"
  by (cases c)
     (auto simp: frame_refl_scalar
           dest: returning_frame Stiefel_retr_st_frame Stiefel_rand_st_frame Stiefel_exp_st_frame)

lemma FixedRank_call_frame: "FixedRank_call L self h c = Inr (v, h') \<Longrightarrow> frame h h' v"
  by (cases c) (auto simp: frame_refl_scalar dest: returning_frame split: sum.splits)

lemma factor_call_frame:
  assumes inh: "\<And>man m h args v h'. I man m h args = Inr (v, h') \<Longrightarrow> frame h h' v"
  shows "factor_call I L man m h args = Inr (v, h') \<Longrightarrow> frame h h' v"
proof (cases man)
  case (MStiefel s)
  assume "factor_call I L man m h args = Inr (v, h')"
  with MStiefel show ?thesis
    by (auto simp: stiefel_factor_call_def simp del: Stiefel_call.simps
             split: factor_method.splits rand_draw.splits draw.splits if_splits
             dest: Stiefel_call_frame inh)
next
  case (MFixedRank f)
  assume "factor_call I L man m h args = Inr (v, h')"
  with MFixedRank show ?thesis
    by (auto simp: fixed_rank_factor_call_def simp del: FixedRank_call.simps
             split: factor_method.splits rand_draw.splits draw.splits if_splits
             dest: FixedRank_call_frame inh)
qed

lemma frame_trans_unchanged:
  "frame h h1 v \<Longrightarrow> unchanged h1 v = Inr (v', h2) \<Longrightarrow> frame h h2 v'"
  by (simp add: unchanged_def)

lemma frame_then:
  assumes "frame h h1 v" "frame h1 h2 v'"
  shows "frame h h2 v'"
proof -
  from assms have t: "take (length h) h1 = h" "take (length h1) h2 = h1"
    by (simp_all add: frame_def)
  have le: "length h \<le> length h1" using t(1) by (rule take_length_le)
  have "list_all (\<lambda>r. length h \<le> r \<and> r < length h2) (refs_of v')"
    using assms(2) le by (auto simp: frame_def list_all_iff)
  with take_trans[OF t] show ?thesis by (simp add: frame_def)
qed

lemma frame_trans_scaled:
  assumes "frame h h1 v" "scaled c h1 v = Inr (v', h2)"
  shows "frame h h2 v'"
proof (cases v)
  case (Scalar x)
  with assms show ?thesis by (auto simp: frame_def)
next
  case (Element r)
  with assms(2) have "frame h1 h2 v'" by (auto dest: returning_frame)
  with assms(1) show ?thesis by (rule frame_then)
next
  case (Elements rs)
  with assms show ?thesis by simp
qed

lemma frame_weaken:
  assumes "frame h h1 v" "take (length h1) h2 = h1"
  shows "frame h h2 v"
proof -
  from assms have t: "take (length h) h1 = h" by (simp add: frame_def)
  have le: "length h1 \<le> length h2" using assms(2) by (rule take_length_le)
  have "list_all (\<lambda>r. length h \<le> r \<and> r < length h2) (refs_of v)"
    using assms(1) le by (auto simp: frame_def list_all_iff)
  with take_trans[OF t assms(2)] show ?thesis by (simp add: frame_def)
qed

lemma factor_calls_frame:
  assumes inh: "\<And>man m h args v h'. I man m h args = Inr (v, h') \<Longrightarrow> frame h h' v"
    and post: "\<And>h h1 v v' h2. frame h h1 v \<Longrightarrow> post h1 v = Inr (v', h2) \<Longrightarrow> frame h h2 v'"
  shows "factor_calls I L meth post ms k h args = Inr (vs, h')
         \<Longrightarrow> take (length h) h' = h \<and> list_all (\<lambda>v. frame h h' v) vs"
proof (induction ms arbitrary: k h vs)
  case Nil
  then show ?case by simp
next
  case (Cons man ms)
  from Cons.prems obtain v h1 v' h2 vs' where
    c: "factor_call I L man (meth k) h (map (\<lambda>a. a ! k) args) = Inr (v, h1)"
    and p: "post h1 v = Inr (v', h2)"
    and r: "factor_calls I L meth post ms (Suc k) h2 args = Inr (vs', h')"
    and vs: "vs = v' # vs'"
    by (auto split: if_splits sum.splits prod.splits)
  have f1: "frame h h1 v"
    by (rule factor_call_frame[where I = I, OF _ c]) (rule inh)
  from post[OF f1 p] have f2: "frame h h2 v'" .
  from Cons.IH[OF r] have t: "take (length h2) h' = h2" and rest: "list_all (\<lambda>v. frame h2 h' v) vs'"
    by simp_all
  from f2 have t2: "take (length h) h2 = h" by (simp add: frame_def)
  have "frame h h' v'" using f2 t by (rule frame_weaken)
  moreover have "list_all (\<lambda>v. frame h h' v) vs'"
    using rest f2 by (auto simp: list_all_iff intro: frame_then)
  ultimately show ?case using take_trans[OF t2 t] vs by simp
qed

lemma elements_fresh:
  "list_all (\<lambda>v. list_all P (refs_of v)) vs
   \<Longrightarrow> list_all P (concat (map refs_of_cref (elements_of vs)))"
  by (induction vs rule: elements_of.induct) (auto simp: list_all_iff)

lemma collected_frame:
  assumes "take (length h) h' = h" "list_all (\<lambda>v. frame h h' v) vs"
  shows "frame h h' (Elements (elements_of vs))"
proof -
  from assms(2) have "list_all (\<lambda>v. list_all (\<lambda>r. length h \<le> r \<and> r < length h') (refs_of v)) vs"
    by (auto simp: frame_def list_all_iff)
  from elements_fresh[OF this] assms(1) show ?thesis by (simp add: frame_def)
qed

lemma Product_call_frame:
  assumes inh: "\<And>man m h args v h'. I man m h args = Inr (v, h') \<Longrightarrow> frame h h' v"
    and c: "Product_call I L ms h c = Inr (v, h')"
  shows "frame h h' v"
proof -
  have plain: "take (length h) h' = h \<and> list_all (\<lambda>v. frame h h' v) vs"
    if "factor_calls I L meth unchanged ms k h args = Inr (vs, h')" for meth k h args vs h'
    by (rule factor_calls_frame[where I = I and post = unchanged, OF _ _ that])
       (erule inh, erule (1) frame_trans_unchanged)
  have scale: "take (length h) h' = h \<and> list_all (\<lambda>v. frame h h' v) vs"
    if "factor_calls I L meth (scaled x) ms k h args = Inr (vs, h')" for meth x k h args vs h'
    by (rule factor_calls_frame[where I = I and post = "scaled x", OF _ _ that])
       (erule inh, erule (1) frame_trans_scaled)
  show ?thesis
  proof (cases c)
    case (PInner X G H)
    with c show ?thesis
      by (auto simp: summed_def frame_def split: sum.splits dest!: plain)
  next
    case (PNorm X G)
    with c show ?thesis
      by (auto simp: summed_def frame_def split: sum.splits dest!: plain)
  next
    case (PDist X Y)
    with c show ?thesis
      by (auto simp: root_of_squares_def frame_def split: sum.splits dest!: plain)
  next
    case (PProj X U)
    with c show ?thesis
      by (auto simp: collected_def split: sum.splits intro!: collected_frame dest!: plain)
  next
    case (PEgrad2rgrad X U)
    with c show ?thesis
      by (auto simp: collected_def split: sum.splits intro!: collected_frame dest!: plain)
  next
    case (PEhess2rhess X egrad ehess H)
    with c show ?thesis
      by (auto simp: collected_def split: sum.splits intro!: collected_frame dest!: plain)
  next
    case (PExp X U)
    with c show ?thesis
      by (auto simp: collected_def split: sum.splits intro!: collected_frame dest!: plain)
  next
    case (PRetr X U)
    with c show ?thesis
      by (auto simp: collected_def split: sum.splits intro!: collected_frame dest!: plain)
  next
    case (PLog X U)
    with c show ?thesis
      by (auto simp: collected_def split: sum.splits intro!: collected_frame dest!: plain)
  next
    case (PRand draws)
    with c show ?thesis
      by (auto simp: collected_def split: sum.splits intro!: collected_frame dest!: plain)
  next
    case (PRandvec draws X)
    with c show ?thesis
      by (auto simp: collected_def split: sum.splits intro!: collected_frame dest!: scale)
  next
    case (PTransp X1 X2 G)
    with c show ?thesis
      by (auto simp: collected_def split: sum.splits intro!: collected_frame dest!: plain)
  next
    case (PPairmean X Y)
    with c show ?thesis
      by (auto simp: collected_def split: sum.splits intro!: collected_frame dest!: plain)
  next
    case (PZerovec X)
    with c show ?thesis
      by (auto simp: collected_def split: sum.splits intro!: collected_frame dest!: plain)
  qed
qed

lemma retr_loop_st_value:
  "retr_loop qr XNew is = Inr XNew' \<Longrightarrow> h ! x = Arr3 XNew \<Longrightarrow> x < length h
   \<Longrightarrow> \<exists>h'. retr_loop_st qr h x is = Inr h' \<and> h' ! x = Arr3 XNew'"
proof (induction "is" arbitrary: XNew h)
  case Nil
  then show ?case by simp
next
  case (Cons i "is")
  from Cons.prems(1) have i: "i < length XNew"
    and r: "retr_loop qr (XNew[i := qr_unflipped qr (XNew ! i)]) is = Inr XNew'"
    by (auto split: if_splits)
  let ?h1 = "h[x := Arr3 (XNew[i := qr_unflipped qr (XNew ! i)])]"
  have s: "setitem h x i (qr_unflipped qr (blocks (h ! x) ! i)) = Inr ?h1"
    using i Cons.prems(2) by (simp add: setitem_def)
  have "?h1 ! x = Arr3 (XNew[i := qr_unflipped qr (XNew ! i)])" "x < length ?h1"
    using Cons.prems(3) by simp_all
  from Cons.IH[OF r this] obtain h' where "retr_loop_st qr ?h1 x is = Inr h'" "h' ! x = Arr3 XNew'"
    by blast
  then show ?case using s by simp
qed

lemma Stiefel_retr_st_value:
  assumes v: "valid_stiefel s" and X: "has_shape (stiefel_shape s) (h ! X)"
    and G: "has_shape (stiefel_shape s) (h ! G)"
    and Y: "Stiefel_retr qr s (h ! X) (h ! G) = Inr Y"
  shows "\<exists>h'. Stiefel_retr_st qr s h X G = Inr (Element (RArray (length h)), h')
              \<and> h' ! length h = Y"
proof (cases "st_k s = 1")
  case True
  from X True obtain A where A: "h ! X = Arr2 A" by (cases "h ! X") (auto simp: stiefel_shape_def)
  from G True obtain B where B: "h ! G = Arr2 B" by (cases "h ! G") (auto simp: stiefel_shape_def)
  from Y True show ?thesis
    by (auto simp: Stiefel_retr_def Stiefel_retr_st_def returning_def alloc_def A B)
next
  case False
  from X False obtain As where A: "h ! X = Arr3 As" by (cases "h ! X") (auto simp: stiefel_shape_def)
  from G False obtain Bs where B: "h ! G = Arr3 Bs" by (cases "h ! G") (auto simp: stiefel_shape_def)
  let ?XNew = "map2 madd As Bs"
  let ?h1 = "h @ [Arr3 ?XNew]"
  from Y False obtain Ys where l: "retr_loop qr ?XNew [0..<nat (st_k s)] = Inr Ys" and Ys: "Y = Arr3 Ys"
    by (auto simp: Stiefel_retr_def A B split: sum.splits)
  have "?h1 ! length h = Arr3 ?XNew" "length h < length ?h1" by simp_all
  from retr_loop_st_value[OF l this] obtain h' where
    "retr_loop_st qr ?h1 (length h) [0..<nat (st_k s)] = Inr h'" "h' ! length h = Arr3 Ys"
    by blast
  then show ?thesis using False
    by (simp add: Stiefel_retr_st_def alloc_def A B Ys)
qed

text \<open>
  Claim C8.  No operation changes an array it was given.  A call of an operation of Stiefel,
  of FixedRankEmbedded or of Product that returns leaves every array that existed before the
  call as it was, and the arrays of its result did not exist before the call; for Product
  this holds when the methods that its factors inherit from the base classes have the same
  property.  The loop of \<open>Stiefel.retr\<close> for \<open>k > 1\<close> assigns to the items of the new array
  \<open>X + G\<close>: the call returns the value of the retraction in a new array and \<open>X\<close> and \<open>G\<close>
  hold what they held.
\<close>

theorem operations_leave_their_arguments_unchanged:
  "(Stiefel_call L s h c = Inr (v, h') \<longrightarrow> frame h h' v)
   \<and> (FixedRank_call L f h c' = Inr (v, h') \<longrightarrow> frame h h' v)
   \<and> ((\<forall>man m g args w g'. I man m g args = Inr (w, g') \<longrightarrow> frame g g' w)
        \<and> Product_call I L ms h c'' = Inr (v, h') \<longrightarrow> frame h h' v)
   \<and> (valid_stiefel s \<and> X < length h \<and> G < length h
        \<and> has_shape (stiefel_shape s) (h ! X) \<and> has_shape (stiefel_shape s) (h ! G)
        \<and> Stiefel_retr (lib_qr L) s (h ! X) (h ! G) = Inr Y
      \<longrightarrow> (\<exists>hr. Stiefel_call L s h (SRetr X G) = Inr (Element (RArray (length h)), hr)
                \<and> hr ! length h = Y \<and> hr ! X = h ! X \<and> hr ! G = h ! G))"
proof (intro conjI impI)
  assume "Stiefel_call L s h c = Inr (v, h')"
  then show "frame h h' v" by (rule Stiefel_call_frame)
next
  assume "FixedRank_call L f h c' = Inr (v, h')"
  then show "frame h h' v" by (rule FixedRank_call_frame)
next
  assume a: "(\<forall>man m g args w g'. I man m g args = Inr (w, g') \<longrightarrow> frame g g' w)
        \<and> Product_call I L ms h c'' = Inr (v, h')"
  show "frame h h' v"
  proof (rule Product_call_frame[where I = I])
    show "\<And>man m g args w g'. I man m g args = Inr (w, g') \<Longrightarrow> frame g g' w"
      using a by blast
    show "Product_call I L ms h c'' = Inr (v, h')" using a by blast
  qed
next
  assume a: "valid_stiefel s \<and> X < length h \<and> G < length h
        \<and> has_shape (stiefel_shape s) (h ! X) \<and> has_shape (stiefel_shape s) (h ! G)
        \<and> Stiefel_retr (lib_qr L) s (h ! X) (h ! G) = Inr Y"
  then obtain hr where r: "Stiefel_retr_st (lib_qr L) s h X G = Inr (Element (RArray (length h)), hr)"
    and y: "hr ! length h = Y"
    using Stiefel_retr_st_value[of s h X G "lib_qr L" Y] by blast
  from Stiefel_retr_st_frame[OF r] have t: "take (length h) hr = h"
    by (simp add: frame_def)
  have "hr ! X = take (length h) hr ! X" "hr ! G = take (length h) hr ! G"
    using a by simp_all
  then have "hr ! X = h ! X" "hr ! G = h ! G"
    by (simp_all only: t)
  with r y show "\<exists>hr. Stiefel_call L s h (SRetr X G) = Inr (Element (RArray (length h)), hr)
                \<and> hr ! length h = Y \<and> hr ! X = h ! X \<and> hr ! G = h ! G"
    by simp
qed

theorem operations_leave_their_arguments_unchanged_witness:
  "\<exists>s2 s1 f.
     Stiefel_init 2 1 2 = Inr s2 \<and> Stiefel_init 2 1 1 = Inr s1
     \<and> FixedRankEmbedded_init 2 2 1 = Inr f
     \<and> Stiefel_call
          \<lparr>lib_qr = (\<lambda>A. if A = [[1], [4 / 3]] then ([[- 3 / 5], [- 4 / 5]], [[- 5 / 3]])
                          else ([[- 3 / 5], [- 4 / 5]], [[- 5 / 4]])),
            lib_svd = (\<lambda>T. ([], [], [])), lib_expm = (\<lambda>B. B)\<rparr>
          s2 [Arr3 [[[1], [0]], [[0], [1]]], Arr3 [[[0], [4 / 3]], [[3 / 4], [0]]]] (SRetr 0 1)
        = Inr (Element (RArray 2),
               [Arr3 [[[1], [0]], [[0], [1]]], Arr3 [[[0], [4 / 3]], [[3 / 4], [0]]],
                Arr3 [[[3 / 5], [4 / 5]], [[3 / 5], [4 / 5]]]])
     \<and> frame [Arr3 [[[1], [0]], [[0], [1]]], Arr3 [[[0], [4 / 3]], [[3 / 4], [0]]]]
              [Arr3 [[[1], [0]], [[0], [1]]], Arr3 [[[0], [4 / 3]], [[3 / 4], [0]]],
               Arr3 [[[3 / 5], [4 / 5]], [[3 / 5], [4 / 5]]]]
              (Element (RArray 2))
     \<and> valid_stiefel s2
     \<and> has_shape (stiefel_shape s2) (Arr3 [[[1], [0]], [[0], [1]]])
     \<and> has_shape (stiefel_shape s2) (Arr3 [[[0], [4 / 3]], [[3 / 4], [0]]])
     \<and> Stiefel_retr
          (\<lambda>A. if A = [[1], [4 / 3]] then ([[- 3 / 5], [- 4 / 5]], [[- 5 / 3]])
                else ([[- 3 / 5], [- 4 / 5]], [[- 5 / 4]]))
          s2 (Arr3 [[[1], [0]], [[0], [1]]]) (Arr3 [[[0], [4 / 3]], [[3 / 4], [0]]])
        = Inr (Arr3 [[[3 / 5], [4 / 5]], [[3 / 5], [4 / 5]]])
     \<and> FixedRank_call
          \<lparr>lib_qr = (\<lambda>A. ([], [])), lib_svd = (\<lambda>T. ([], [], [])), lib_expm = (\<lambda>B. B)\<rparr>
          f [Arr2 [[1], [0]], Arr1 [1], Arr2 [[1, 0]], Arr2 [[1, 2], [3, 4]]]
          (FProj (0, 1, 2) (RArray 3))
        = Inr (Element (RTangent 4 5 6),
               [Arr2 [[1], [0]], Arr1 [1], Arr2 [[1, 0]], Arr2 [[1, 2], [3, 4]],
                Arr2 [[0], [3]], Arr2 [[1]], Arr2 [[0], [2]]])
     \<and> frame [Arr2 [[1], [0]], Arr1 [1], Arr2 [[1, 0]], Arr2 [[1, 2], [3, 4]]]
              [Arr2 [[1], [0]], Arr1 [1], Arr2 [[1, 0]], Arr2 [[1, 2], [3, 4]],
               Arr2 [[0], [3]], Arr2 [[1]], Arr2 [[0], [2]]]
              (Element (RTangent 4 5 6))
     \<and> Product_call (\<lambda>man m g args. Inr (Scalar 0, g))
          \<lparr>lib_qr = (\<lambda>A. ([], [])), lib_svd = (\<lambda>T. ([], [], [])), lib_expm = (\<lambda>B. B)\<rparr>
          [MStiefel s1] [Arr2 [[1], [0]], Arr2 [[3], [4]]] (PProj [RArray 0] [RArray 1])
        = Inr (Elements [RArray 2], [Arr2 [[1], [0]], Arr2 [[3], [4]], Arr2 [[0], [4]]])
     \<and> frame [Arr2 [[1], [0]], Arr2 [[3], [4]]]
              [Arr2 [[1], [0]], Arr2 [[3], [4]], Arr2 [[0], [4]]] (Elements [RArray 2])"
proof -
  let ?qr = "\<lambda>A::mat. if A = [[1], [4 / 3]] then ([[- 3 / 5], [- 4 / 5]], [[- 5 / 3]])
                          else ([[- 3 / 5], [- 4 / 5]], [[- 5 / 4]]) :: mat \<times> mat"
  let ?L = "\<lparr>lib_qr = ?qr, lib_svd = (\<lambda>T. ([], [], [])), lib_expm = (\<lambda>B. B)\<rparr>"
  let ?L' = "\<lparr>lib_qr = (\<lambda>A. ([], [])), lib_svd = (\<lambda>T. ([], [], [])), lib_expm = (\<lambda>B. B)\<rparr>"
  let ?h = "[Arr3 [[[1], [0]], [[0], [1]]], Arr3 [[[0], [4 / 3]], [[3 / 4], [0]]]]"
  let ?hr = "?h @ [Arr3 [[[3 / 5], [4 / 5]], [[3 / 5], [4 / 5]]]]"
  let ?g = "[Arr2 [[1], [0]], Arr1 [1], Arr2 [[1, 0]], Arr2 [[1, 2], [3, 4]]]"
  let ?gr = "?g @ [Arr2 [[0], [3]], Arr2 [[1]], Arr2 [[0], [2]]]"
  let ?p = "[Arr2 [[1], [0]], Arr2 [[3], [4]]]"
  let ?pr = "?p @ [Arr2 [[0], [4]]]"
  obtain s2 where s2: "Stiefel_init 2 1 2 = Inr s2" by (simp add: Stiefel_init_small)
  obtain s1 where s1: "Stiefel_init 2 1 1 = Inr s1" by (simp add: Stiefel_init_small)
  obtain f where f: "FixedRankEmbedded_init 2 2 1 = Inr f"
    by (simp add: init_eval)
  from s2 have k2: "st_k s2 = 2" "st_n s2 = 2" "st_p s2 = 1" by (auto simp: Stiefel_init_small)
  have upt2: "[0..<2] = [0, 1::nat]" by (simp add: upt_rec)
  have u1: "qr_unflipped ?qr [[1], [4 / 3]] = [[3 / 5], [4 / 5]]"
    by (simp add: qr_unflipped_def sign_correction_def diag_of_mat_def diag_of_vec_def sign_def
                  matmul_def mT_def ncols_def dot_def)
  have u2: "qr_unflipped ?qr [[3 / 4], [1]] = [[3 / 5], [4 / 5]]"
    by (simp add: qr_unflipped_def sign_correction_def diag_of_mat_def diag_of_vec_def sign_def
                  matmul_def mT_def ncols_def dot_def)
  have a: "Stiefel_call ?L s2 ?h (SRetr 0 1) = Inr (Element (RArray 2), ?hr)"
    by (simp add: Stiefel_retr_st_def k2 alloc_def upt2 setitem_def madd_def u1 u2)
  have b: "FixedRank_call ?L' f ?g (FProj (0, 1, 2) (RArray 3)) = Inr (Element (RTangent 4 5 6), ?gr)"
    by (simp add: returning_def alloc_def Let_def matmul_def mT_def ncols_def dot_def msub_def)
  let ?I = "\<lambda>(man::manifold) (m::factor_method) (g::heap) (args::cref list).
              Inr (Scalar 0, g) :: error + outcome \<times> heap"
  have c: "Product_call ?I ?L' [MStiefel s1] ?p (PProj [RArray 0] [RArray 1])
           = Inr (Elements [RArray 2], ?pr)"
    by (simp add: collected_def stiefel_factor_call_def unchanged_def returning_def alloc_def
                  Stiefel_proj_def sym_part_def matmul_def mT_def ncols_def dot_def madd_def
                  sdiv_def msub_def)
  from operations_leave_their_arguments_unchanged
         [where L = ?L and s = s2 and h = ?h and c = "SRetr 0 1" and v = "Element (RArray 2)"
            and h' = ?hr] a
  have fa: "frame ?h ?hr (Element (RArray 2))" by blast
  from operations_leave_their_arguments_unchanged
         [where L = ?L' and h = ?g and v = "Element (RTangent 4 5 6)" and h' = ?gr and f = f
            and c' = "FProj (0, 1, 2) (RArray 3)"] b
  have fb: "frame ?g ?gr (Element (RTangent 4 5 6))" by blast
  have inh: "\<forall>man m g args w g'. ?I man m g args = Inr (w, g') \<longrightarrow> frame g g' w"
    by (simp add: frame_def)
  from operations_leave_their_arguments_unchanged
         [where L = ?L' and h = ?p and v = "Elements [RArray 2]" and h' = ?pr and I = ?I
            and ms = "[MStiefel s1]" and c'' = "PProj [RArray 0] [RArray 1]"] c inh
  have fc: "frame ?p ?pr (Elements [RArray 2])" by blast
  have vs: "valid_stiefel s2" using s2 by (simp add: valid_stiefel_def k2)
  have sh: "has_shape (stiefel_shape s2) (?h ! 0)" "has_shape (stiefel_shape s2) (?h ! 1)"
    by (simp_all add: stiefel_shape_def k2 mat_def)
  have pure: "Stiefel_retr (lib_qr ?L) s2 (?h ! 0) (?h ! 1)
              = Inr (Arr3 [[[3 / 5], [4 / 5]], [[3 / 5], [4 / 5]]])"
    by (simp add: Stiefel_retr_def k2 upt2 madd_def u1 u2)
  from operations_leave_their_arguments_unchanged
         [where L = ?L and s = s2 and h = ?h and X = 0 and G = 1
            and Y = "Arr3 [[[3 / 5], [4 / 5]], [[3 / 5], [4 / 5]]]"]
       vs sh pure
  have "\<exists>hr. Stiefel_call ?L s2 ?h (SRetr 0 1) = Inr (Element (RArray (length ?h)), hr)
              \<and> hr ! length ?h = Arr3 [[[3 / 5], [4 / 5]], [[3 / 5], [4 / 5]]]
              \<and> hr ! 0 = ?h ! 0 \<and> hr ! 1 = ?h ! 1"
    by simp
  from s2 s1 f a fa b fb c fc vs sh pure show ?thesis by auto
qed

end
